theory Spec2Isabelle
  imports Main "HOL-Library.Word" "HOL-Library.AList" "HOL-Library.DAList"
begin

unbundle bit_operations_syntax

section \<open>The level record and its two representations\<close>

text \<open>
  A Go \<open>int32\<close> is a 32-bit word. A Go \<open>float32\<close> is carried as its 32-bit pattern: the
  program never computes with these values, it only copies them from one struct to
  another, so equality here is equality of the stored bits.
\<close>

type_synonym int32 = "32 word"
type_synonym float32 = "32 word"

text \<open>
  A Go \<open>map[string]float32\<close> is an association list with distinct keys; the order of
  the list is the order in which \<open>range\<close> visits the entries in the run at hand. Go
  leaves that order open, and every order is a value of this type.
\<close>

type_synonym gomap = "(string, float32) alist"

text \<open>
  \<open>JsonLevel\<close>: every field is a pointer, \<open>nil\<close> is \<open>None\<close>. The field names carry a
  \<open>j\<close> so that they do not clash with those of \<open>DatastoreLevel\<close>.
\<close>

record JsonLevel =
  jKey :: "string option"
  jParent :: "string option"
  jName :: "string option"
  jRows :: "int32 option"
  jColumns :: "int32 option"
  jHealth :: "int32 option"
  jDuration :: "int32 option"
  jComboTimer :: "float32 option"
  jUnitDelayMultiplier :: "float32 option"
  jMaxActiveUnits :: "int32 option"
  jSpawnsPerSecond :: "float32 option"
  jSpawnFrequency :: "gomap option"

record datastoreSpawnFrequency =
  UnitType :: string
  Frequency :: float32

record DatastoreLevel =
  Key :: string
  HasKey :: bool
  Parent :: string
  HasParent :: bool
  Name :: string
  HasName :: bool
  Rows :: int32
  HasRows :: bool
  Columns :: int32
  HasColumns :: bool
  Health :: int32
  HasHealth :: bool
  Duration :: int32
  HasDuration :: bool
  ComboTimer :: float32
  HasComboTimer :: bool
  UnitDelayMultiplier :: float32
  HasUnitDelayMultiplier :: bool
  MaxActiveUnits :: int32
  HasMaxActiveUnits :: bool
  SpawnsPerSecond :: float32
  HasSpawnsPerSecond :: bool
  SpawnFrequency :: "datastoreSpawnFrequency list"
  HasSpawnFrequency :: bool

text \<open>The zero value \<open>DatastoreLevel{}\<close>.\<close>

definition zeroLevel :: DatastoreLevel where
  "zeroLevel = \<lparr> Key = [], HasKey = False, Parent = [], HasParent = False,
     Name = [], HasName = False, Rows = 0, HasRows = False,
     Columns = 0, HasColumns = False, Health = 0, HasHealth = False,
     Duration = 0, HasDuration = False, ComboTimer = 0, HasComboTimer = False,
     UnitDelayMultiplier = 0, HasUnitDelayMultiplier = False,
     MaxActiveUnits = 0, HasMaxActiveUnits = False,
     SpawnsPerSecond = 0, HasSpawnsPerSecond = False,
     SpawnFrequency = [], HasSpawnFrequency = False \<rparr>"

text \<open>
  \<open>MergeParentProperties\<close> is ten \<open>if\<close> statements in a row, one per field. Each is a
  step function here, and the method runs them in the order of the source. \<open>Key\<close>,
  \<open>HasKey\<close>, \<open>Parent\<close> and \<open>HasParent\<close> are not touched by any of them.
\<close>

definition mergeName :: "DatastoreLevel \<Rightarrow> DatastoreLevel \<Rightarrow> DatastoreLevel" where
  "mergeName level parentLevel =
     (if \<not> HasName level \<and> HasName parentLevel
      then level\<lparr>HasName := True, Name := Name parentLevel\<rparr> else level)"

definition mergeRows :: "DatastoreLevel \<Rightarrow> DatastoreLevel \<Rightarrow> DatastoreLevel" where
  "mergeRows level parentLevel =
     (if \<not> HasRows level \<and> HasRows parentLevel
      then level\<lparr>HasRows := True, Rows := Rows parentLevel\<rparr> else level)"

definition mergeColumns :: "DatastoreLevel \<Rightarrow> DatastoreLevel \<Rightarrow> DatastoreLevel" where
  "mergeColumns level parentLevel =
     (if \<not> HasColumns level \<and> HasColumns parentLevel
      then level\<lparr>HasColumns := True, Columns := Columns parentLevel\<rparr> else level)"

definition mergeHealth :: "DatastoreLevel \<Rightarrow> DatastoreLevel \<Rightarrow> DatastoreLevel" where
  "mergeHealth level parentLevel =
     (if \<not> HasHealth level \<and> HasHealth parentLevel
      then level\<lparr>HasHealth := True, Health := Health parentLevel\<rparr> else level)"

definition mergeDuration :: "DatastoreLevel \<Rightarrow> DatastoreLevel \<Rightarrow> DatastoreLevel" where
  "mergeDuration level parentLevel =
     (if \<not> HasDuration level \<and> HasDuration parentLevel
      then level\<lparr>HasDuration := True, Duration := Duration parentLevel\<rparr> else level)"

definition mergeComboTimer :: "DatastoreLevel \<Rightarrow> DatastoreLevel \<Rightarrow> DatastoreLevel" where
  "mergeComboTimer level parentLevel =
     (if \<not> HasComboTimer level \<and> HasComboTimer parentLevel
      then level\<lparr>HasComboTimer := True, ComboTimer := ComboTimer parentLevel\<rparr> else level)"

definition mergeUnitDelayMultiplier :: "DatastoreLevel \<Rightarrow> DatastoreLevel \<Rightarrow> DatastoreLevel" where
  "mergeUnitDelayMultiplier level parentLevel =
     (if \<not> HasUnitDelayMultiplier level \<and> HasUnitDelayMultiplier parentLevel
      then level\<lparr>HasUnitDelayMultiplier := True, UnitDelayMultiplier := UnitDelayMultiplier parentLevel\<rparr> else level)"

definition mergeMaxActiveUnits :: "DatastoreLevel \<Rightarrow> DatastoreLevel \<Rightarrow> DatastoreLevel" where
  "mergeMaxActiveUnits level parentLevel =
     (if \<not> HasMaxActiveUnits level \<and> HasMaxActiveUnits parentLevel
      then level\<lparr>HasMaxActiveUnits := True, MaxActiveUnits := MaxActiveUnits parentLevel\<rparr> else level)"

definition mergeSpawnsPerSecond :: "DatastoreLevel \<Rightarrow> DatastoreLevel \<Rightarrow> DatastoreLevel" where
  "mergeSpawnsPerSecond level parentLevel =
     (if \<not> HasSpawnsPerSecond level \<and> HasSpawnsPerSecond parentLevel
      then level\<lparr>HasSpawnsPerSecond := True, SpawnsPerSecond := SpawnsPerSecond parentLevel\<rparr> else level)"

definition mergeSpawnFrequency :: "DatastoreLevel \<Rightarrow> DatastoreLevel \<Rightarrow> DatastoreLevel" where
  "mergeSpawnFrequency level parentLevel =
     (if \<not> HasSpawnFrequency level \<and> HasSpawnFrequency parentLevel
      then level\<lparr>HasSpawnFrequency := True, SpawnFrequency := SpawnFrequency parentLevel\<rparr> else level)"

definition MergeParentProperties :: "DatastoreLevel \<Rightarrow> DatastoreLevel \<Rightarrow> DatastoreLevel" where
  "MergeParentProperties level parentLevel =
    (let l1 = mergeName level parentLevel;
         l2 = mergeRows l1 parentLevel;
         l3 = mergeColumns l2 parentLevel;
         l4 = mergeHealth l3 parentLevel;
         l5 = mergeDuration l4 parentLevel;
         l6 = mergeComboTimer l5 parentLevel;
         l7 = mergeUnitDelayMultiplier l6 parentLevel;
         l8 = mergeMaxActiveUnits l7 parentLevel;
         l9 = mergeSpawnsPerSecond l8 parentLevel
     in mergeSpawnFrequency l9 parentLevel)"

text \<open>
  \<open>ToDatastoreLevel\<close> starts from the zero value and runs twelve \<open>if\<close> statements, one
  per pointer: a non-nil pointer sets the value and its presence flag. The
  spawn-frequency map is visited entry by entry, each entry appended to the slice.
\<close>

definition spawnElement :: "string \<times> float32 \<Rightarrow> datastoreSpawnFrequency" where
  "spawnElement kv = \<lparr> UnitType = fst kv, Frequency = snd kv \<rparr>"

definition fromKey :: "string option \<Rightarrow> DatastoreLevel \<Rightarrow> DatastoreLevel" where
  "fromKey p result =
     (case p of None \<Rightarrow> result | Some v \<Rightarrow> result\<lparr>Key := v, HasKey := True\<rparr>)"

definition fromParent :: "string option \<Rightarrow> DatastoreLevel \<Rightarrow> DatastoreLevel" where
  "fromParent p result =
     (case p of None \<Rightarrow> result | Some v \<Rightarrow> result\<lparr>Parent := v, HasParent := True\<rparr>)"

definition fromName :: "string option \<Rightarrow> DatastoreLevel \<Rightarrow> DatastoreLevel" where
  "fromName p result =
     (case p of None \<Rightarrow> result | Some v \<Rightarrow> result\<lparr>Name := v, HasName := True\<rparr>)"

definition fromRows :: "int32 option \<Rightarrow> DatastoreLevel \<Rightarrow> DatastoreLevel" where
  "fromRows p result =
     (case p of None \<Rightarrow> result | Some v \<Rightarrow> result\<lparr>Rows := v, HasRows := True\<rparr>)"

definition fromColumns :: "int32 option \<Rightarrow> DatastoreLevel \<Rightarrow> DatastoreLevel" where
  "fromColumns p result =
     (case p of None \<Rightarrow> result | Some v \<Rightarrow> result\<lparr>Columns := v, HasColumns := True\<rparr>)"

definition fromHealth :: "int32 option \<Rightarrow> DatastoreLevel \<Rightarrow> DatastoreLevel" where
  "fromHealth p result =
     (case p of None \<Rightarrow> result | Some v \<Rightarrow> result\<lparr>Health := v, HasHealth := True\<rparr>)"

definition fromDuration :: "int32 option \<Rightarrow> DatastoreLevel \<Rightarrow> DatastoreLevel" where
  "fromDuration p result =
     (case p of None \<Rightarrow> result | Some v \<Rightarrow> result\<lparr>Duration := v, HasDuration := True\<rparr>)"

definition fromComboTimer :: "float32 option \<Rightarrow> DatastoreLevel \<Rightarrow> DatastoreLevel" where
  "fromComboTimer p result =
     (case p of None \<Rightarrow> result | Some v \<Rightarrow> result\<lparr>ComboTimer := v, HasComboTimer := True\<rparr>)"

definition fromUnitDelayMultiplier :: "float32 option \<Rightarrow> DatastoreLevel \<Rightarrow> DatastoreLevel" where
  "fromUnitDelayMultiplier p result =
     (case p of None \<Rightarrow> result | Some v \<Rightarrow> result\<lparr>UnitDelayMultiplier := v, HasUnitDelayMultiplier := True\<rparr>)"

definition fromMaxActiveUnits :: "int32 option \<Rightarrow> DatastoreLevel \<Rightarrow> DatastoreLevel" where
  "fromMaxActiveUnits p result =
     (case p of None \<Rightarrow> result | Some v \<Rightarrow> result\<lparr>MaxActiveUnits := v, HasMaxActiveUnits := True\<rparr>)"

definition fromSpawnsPerSecond :: "float32 option \<Rightarrow> DatastoreLevel \<Rightarrow> DatastoreLevel" where
  "fromSpawnsPerSecond p result =
     (case p of None \<Rightarrow> result | Some v \<Rightarrow> result\<lparr>SpawnsPerSecond := v, HasSpawnsPerSecond := True\<rparr>)"

definition fromSpawnFrequency :: "gomap option \<Rightarrow> DatastoreLevel \<Rightarrow> DatastoreLevel" where
  "fromSpawnFrequency p result =
     (case p of None \<Rightarrow> result
      | Some m \<Rightarrow>
          result\<lparr>SpawnFrequency :=
                   foldl (\<lambda>acc kv. acc @ [spawnElement kv]) (SpawnFrequency result)
                     (DAList.impl_of m),
                 HasSpawnFrequency := True\<rparr>)"

definition ToDatastoreLevel :: "JsonLevel \<Rightarrow> DatastoreLevel" where
  "ToDatastoreLevel level =
    (let r1 = fromKey (jKey level) zeroLevel;
         r2 = fromParent (jParent level) r1;
         r3 = fromName (jName level) r2;
         r4 = fromRows (jRows level) r3;
         r5 = fromColumns (jColumns level) r4;
         r6 = fromHealth (jHealth level) r5;
         r7 = fromDuration (jDuration level) r6;
         r8 = fromComboTimer (jComboTimer level) r7;
         r9 = fromUnitDelayMultiplier (jUnitDelayMultiplier level) r8;
         r10 = fromMaxActiveUnits (jMaxActiveUnits level) r9;
         r11 = fromSpawnsPerSecond (jSpawnsPerSecond level) r10
     in fromSpawnFrequency (jSpawnFrequency level) r11)"

text \<open>
  \<open>ToJsonLevel\<close>: each presence flag decides whether the pointer is allocated. The map is
  built by one assignment \<open>m[k] = v\<close> per slice element, in slice order.
\<close>

definition spawnMap :: "datastoreSpawnFrequency list \<Rightarrow> gomap" where
  "spawnMap xs =
     foldl (\<lambda>m element. DAList.update (UnitType element) (Frequency element) m) DAList.empty xs"

definition ToJsonLevel :: "DatastoreLevel \<Rightarrow> JsonLevel" where
  "ToJsonLevel level =
    \<lparr> jKey = (if HasKey level then Some (Key level) else None),
      jParent = (if HasParent level then Some (Parent level) else None),
      jName = (if HasName level then Some (Name level) else None),
      jRows = (if HasRows level then Some (Rows level) else None),
      jColumns = (if HasColumns level then Some (Columns level) else None),
      jHealth = (if HasHealth level then Some (Health level) else None),
      jDuration = (if HasDuration level then Some (Duration level) else None),
      jComboTimer = (if HasComboTimer level then Some (ComboTimer level) else None),
      jUnitDelayMultiplier =
        (if HasUnitDelayMultiplier level then Some (UnitDelayMultiplier level) else None),
      jMaxActiveUnits = (if HasMaxActiveUnits level then Some (MaxActiveUnits level) else None),
      jSpawnsPerSecond =
        (if HasSpawnsPerSecond level then Some (SpawnsPerSecond level) else None),
      jSpawnFrequency =
        (if HasSpawnFrequency level then Some (spawnMap (SpawnFrequency level)) else None) \<rparr>"

section \<open>The datastore and memcache services\<close>

text \<open>
  The handlers talk to two App Engine services. Each is a component of the \<open>world\<close>
  that every function takes and returns.

  The datastore holds the \<open>Level\<close> entities under the single root \<open>LevelRoot\<close>, as an
  association list from key name to entity; the order of the list is the order in which
  a query delivers keys. All entities share that root, so a query sees every earlier
  write. Each datastore call can fail for reasons outside the program; the \<open>...Fails\<close>
  components say which calls do. A \<open>GetAll\<close> that fails hands back the keys it had
  gathered before the error: \<open>allQueryFault = Some n\<close> means failure after \<open>n\<close> keys.

  Memcache maps a key to stored bytes. Memcache answers every call within a request; an
  entry lost between requests is an arbitrary \<open>memcache\<close> component at the start of
  the next.

  \<open>resolveLog\<close> is a log of the ids on which \<open>getLevel\<close> was entered, oldest first.
  No function reads it.
\<close>

datatype error = ErrNoSuchEntity | ErrCacheMiss | ErrInternal

datatype response =
    RespNull
  | RespText string
  | RespLevel JsonLevel
  | RespLevels "JsonLevel list"

record responseCacheEntry =
  Path :: string
  Code :: nat
  Response :: response

text \<open>The two implementations of the \<open>CacheItem\<close> interface.\<close>

datatype cacheItem = LevelItem DatastoreLevel | ResponseItem responseCacheEntry

text \<open>
  Stored bytes are the JSON text of a level entry, the JSON text of a response entry, or
  something that is not JSON at all. A JSON text is carried as the value it encodes.
\<close>

datatype bytes = LevelJson DatastoreLevel | ResponseJson responseCacheEntry | NotJson

record world =
  entities :: "(string \<times> DatastoreLevel) list"
  memcache :: "string \<rightharpoonup> bytes"
  getFails :: "string \<Rightarrow> bool"
  putFails :: "string \<Rightarrow> bool"
  deleteFails :: "string \<Rightarrow> bool"
  childQueryFails :: "string \<Rightarrow> bool"
  allQueryFault :: "nat option"
  resolveLog :: "string list"

definition queryAllKey :: string where
  "queryAllKey = ''query:all@levels''"

definition GetCacheKey :: "cacheItem \<Rightarrow> string" where
  "GetCacheKey item =
     (case item of LevelItem entry \<Rightarrow> ''level:'' @ Key entry
      | ResponseItem entry \<Rightarrow> ''response:'' @ Path entry)"

text \<open>
  \<open>MarshalBinary\<close> is \<open>json.Marshal\<close>, which has no text for a NaN or an infinity (the
  bit patterns whose eight exponent bits are all set) and fails on an item that holds
  one. A level entry is written with all its fields, set or not; in a response the nil
  pointers are left out.
\<close>

definition notJsonNumber :: "float32 \<Rightarrow> bool" where
  "notJsonNumber x = ((x AND 0x7F800000) = 0x7F800000)"

definition levelEncodable :: "DatastoreLevel \<Rightarrow> bool" where
  "levelEncodable l =
     (\<not> notJsonNumber (ComboTimer l) \<and> \<not> notJsonNumber (UnitDelayMultiplier l)
      \<and> \<not> notJsonNumber (SpawnsPerSecond l)
      \<and> list_all (\<lambda>element. \<not> notJsonNumber (Frequency element)) (SpawnFrequency l))"

definition pointerEncodable :: "float32 option \<Rightarrow> bool" where
  "pointerEncodable p = (case p of None \<Rightarrow> True | Some x \<Rightarrow> \<not> notJsonNumber x)"

definition jsonLevelEncodable :: "JsonLevel \<Rightarrow> bool" where
  "jsonLevelEncodable j =
     (pointerEncodable (jComboTimer j) \<and> pointerEncodable (jUnitDelayMultiplier j)
      \<and> pointerEncodable (jSpawnsPerSecond j)
      \<and> (case jSpawnFrequency j of
            None \<Rightarrow> True
          | Some m \<Rightarrow> list_all (\<lambda>kv. \<not> notJsonNumber (snd kv)) (DAList.impl_of m)))"

fun responseEncodable :: "response \<Rightarrow> bool" where
  "responseEncodable RespNull = True"
| "responseEncodable (RespText s) = True"
| "responseEncodable (RespLevel j) = jsonLevelEncodable j"
| "responseEncodable (RespLevels js) = list_all jsonLevelEncodable js"

definition MarshalBinary :: "cacheItem \<Rightarrow> error + bytes" where
  "MarshalBinary item =
     (case item of
        LevelItem entry \<Rightarrow>
          if levelEncodable entry then Inr (LevelJson entry) else Inl ErrInternal
      | ResponseItem entry \<Rightarrow>
          if responseEncodable (Response entry) then Inr (ResponseJson entry)
          else Inl ErrInternal)"

text \<open>
  \<open>UnmarshalBinary\<close> is \<open>json.Unmarshal\<close> into the item: it overwrites the fields that
  the text names. The text of an entry of the same kind names them all. The text of an
  entry of the other kind names none (the two structs have no field name in common), so
  the item stays as it was built and there is no error. Bytes that are not JSON are an
  error.
\<close>

definition UnmarshalBinary :: "cacheItem \<Rightarrow> bytes \<Rightarrow> error + cacheItem" where
  "UnmarshalBinary item data =
     (case (item, data) of
        (LevelItem preset, LevelJson l) \<Rightarrow> Inr (LevelItem l)
      | (LevelItem preset, ResponseJson r) \<Rightarrow> Inr (LevelItem preset)
      | (ResponseItem preset, ResponseJson r) \<Rightarrow> Inr (ResponseItem r)
      | (ResponseItem preset, LevelJson l) \<Rightarrow> Inr (ResponseItem preset)
      | (_, NotJson) \<Rightarrow> Inl ErrInternal)"

text \<open>The three functions of package \<open>cache\<close> that the handlers call. No caller passes a
  nil item, and no caller reads the error of \<open>CacheResource\<close> or of
  \<open>InvalidateCacheEntry\<close>.\<close>

definition GetCachedResource :: "world \<Rightarrow> cacheItem \<Rightarrow> error + cacheItem" where
  "GetCachedResource w item =
     (case memcache w (GetCacheKey item) of
        None \<Rightarrow> Inl ErrCacheMiss
      | Some data \<Rightarrow> UnmarshalBinary item data)"

definition CacheResource :: "world \<Rightarrow> cacheItem \<Rightarrow> world" where
  "CacheResource w item =
     (case MarshalBinary item of
        Inl err \<Rightarrow> w
      | Inr data \<Rightarrow> w\<lparr>memcache := (memcache w)(GetCacheKey item \<mapsto> data)\<rparr>)"

definition InvalidateCacheEntry :: "world \<Rightarrow> cacheItem \<Rightarrow> world" where
  "InvalidateCacheEntry w item = w\<lparr>memcache := (memcache w)(GetCacheKey item := None)\<rparr>"

text \<open>The items built only to address an entry: \<open>&levelCacheEntry{Key: levelId}\<close> and
  \<open>&responseCacheEntry{Path: path}\<close>.\<close>

definition levelEntry :: "string \<Rightarrow> cacheItem" where
  "levelEntry levelId = LevelItem (zeroLevel\<lparr>Key := levelId\<rparr>)"

definition responseEntry :: "string \<Rightarrow> cacheItem" where
  "responseEntry path = ResponseItem \<lparr> Path = path, Code = 0, Response = RespNull \<rparr>"

definition datastore_Get :: "world \<Rightarrow> string \<Rightarrow> error + DatastoreLevel" where
  "datastore_Get w key =
     (if getFails w key then Inl ErrInternal
      else case map_of (entities w) key of
             None \<Rightarrow> Inl ErrNoSuchEntity
           | Some e \<Rightarrow> Inr e)"

definition datastore_Put :: "world \<Rightarrow> string \<Rightarrow> DatastoreLevel \<Rightarrow> error + world" where
  "datastore_Put w key e =
     (if putFails w key then Inl ErrInternal
      else Inr (w\<lparr>entities := AList.update key e (entities w)\<rparr>))"

definition datastore_Delete :: "world \<Rightarrow> string \<Rightarrow> error + world" where
  "datastore_Delete w key =
     (if deleteFails w key then Inl ErrInternal
      else Inr (w\<lparr>entities := AList.delete key (entities w)\<rparr>))"

text \<open>\<open>NewQuery(kind).Ancestor(root).Limit(100).KeysOnly().GetAll\<close>: the keys and the error.\<close>

definition queryAllKeys :: "world \<Rightarrow> string list \<times> error option" where
  "queryAllKeys w =
     (let keys = take 100 (map fst (entities w))
      in case allQueryFault w of
           None \<Rightarrow> (keys, None)
         | Some n \<Rightarrow> (take n keys, Some ErrInternal))"

text \<open>\<open>NewQuery(kind).Ancestor(root).Filter("Parent =", parentId).KeysOnly().GetAll\<close>.\<close>

definition queryChildKeys :: "world \<Rightarrow> string \<Rightarrow> string list \<times> error option" where
  "queryChildKeys w parentId =
     (if childQueryFails w parentId then ([], Some ErrInternal)
      else (map fst (filter (\<lambda>ke. Parent (snd ke) = parentId) (entities w)), None))"

section \<open>The level handlers\<close>

text \<open>
  \<open>getLevel\<close> calls itself on the parent with no bound on the depth, so it is a partial
  function: \<open>None\<close> is a call that never returns.
\<close>

partial_function (option) getLevel ::
  "string \<Rightarrow> world \<Rightarrow> ((error + DatastoreLevel) \<times> world) option" where
  "getLevel levelId w0 =
    (let w = w0\<lparr>resolveLog := resolveLog w0 @ [levelId]\<rparr>
     in case GetCachedResource w (levelEntry levelId) of
          Inr (LevelItem result) \<Rightarrow> Some (Inr result, w)
        | _ \<Rightarrow>
          (case datastore_Get w levelId of
             Inl err \<Rightarrow> Some (Inl err, w)
           | Inr result \<Rightarrow>
               if HasParent result \<and> length (Parent result) > 0
               then Option.bind (getLevel (Parent result) w)
                      (\<lambda>(r, w').
                         case r of
                           Inl err \<Rightarrow> Some (Inl err, w')
                         | Inr parentLevel \<Rightarrow>
                             let merged = MergeParentProperties result parentLevel
                             in Some (Inr merged, CacheResource w' (LevelItem merged)))
               else Some (Inr result, CacheResource w (LevelItem result))))"

declare getLevel.simps [code]

definition buildResourcePath :: "string \<Rightarrow> string" where
  "buildResourcePath levelId = ''/levels/'' @ levelId"

definition invalidateLevelCaches :: "world \<Rightarrow> string \<Rightarrow> world" where
  "invalidateLevelCaches w levelId =
     (let w1 = InvalidateCacheEntry w (responseEntry (buildResourcePath levelId))
      in InvalidateCacheEntry w1 (levelEntry levelId))"

definition invalidateChildLevelCaches :: "world \<Rightarrow> string \<Rightarrow> world" where
  "invalidateChildLevelCaches w parentId =
     (case queryChildKeys w parentId of
        (keys, Some err) \<Rightarrow> w
      | (keys, None) \<Rightarrow> foldl invalidateLevelCaches w keys)"

definition invalidateQueryCaches :: "world \<Rightarrow> world" where
  "invalidateQueryCaches w = InvalidateCacheEntry w (responseEntry queryAllKey)"

text \<open>
  A handler returns the status code and body it writes, and the world it leaves. The
  router hands \<open>handleGet\<close>, \<open>handlePost\<close>, \<open>handlePut\<close> and \<open>handleDelete\<close> the \<open>id\<close>
  segment of the request path, which is \<open>/levels/\<close> followed by that id. The request
  body of an upsert is \<open>None\<close> when \<open>BindJSON\<close> rejects it.
\<close>

type_synonym httpResponse = "nat \<times> response"

definition handleGet :: "string \<Rightarrow> world \<Rightarrow> (httpResponse \<times> world) option" where
  "handleGet levelId w =
    (let path = ''/levels/'' @ levelId
     in case GetCachedResource w (responseEntry path) of
          Inr (ResponseItem cachedResponse) \<Rightarrow>
            Some ((Code cachedResponse, Response cachedResponse), w)
        | _ \<Rightarrow>
          Option.bind (getLevel levelId w)
            (\<lambda>(r, w1).
               case r of
                 Inl ErrNoSuchEntity \<Rightarrow>
                   let cacheEntry = \<lparr> Path = path, Code = 404,
                                       Response = RespText ''Level does not exist'' \<rparr>
                   in Some ((Code cacheEntry, Response cacheEntry),
                            CacheResource w1 (ResponseItem cacheEntry))
               | Inl _ \<Rightarrow> Some ((500, RespText ''Could not retrieve the level''), w1)
               | Inr result \<Rightarrow>
                   let cacheEntry = \<lparr> Path = path, Code = 200,
                                       Response = RespLevel (ToJsonLevel result) \<rparr>
                   in Some ((Code cacheEntry, Response cacheEntry),
                            CacheResource w1 (ResponseItem cacheEntry))))"

definition handlePost :: "string \<Rightarrow> JsonLevel option \<Rightarrow> world \<Rightarrow> httpResponse \<times> world" where
  "handlePost pathId body w =
    (case body of
       None \<Rightarrow> ((400, RespText ''Failed to unmarshal the JSON''), w)
     | Some level0 \<Rightarrow>
         let level = level0\<lparr>jKey := Some pathId\<rparr>;
             dsLevel = ToDatastoreLevel level
         in case datastore_Put w (Key dsLevel) dsLevel of
              Inl err \<Rightarrow> ((500, RespText ''Failed to store the level''), w)
            | Inr w1 \<Rightarrow>
                let w2 = invalidateLevelCaches w1 (Key dsLevel);
                    w3 = invalidateChildLevelCaches w2 (Key dsLevel);
                    w4 = invalidateQueryCaches w3
                in ((200, RespNull), w4))"

definition handlePut :: "string \<Rightarrow> JsonLevel option \<Rightarrow> world \<Rightarrow> httpResponse \<times> world" where
  "handlePut pathId body w = handlePost pathId body w"

definition handleDelete :: "string \<Rightarrow> world \<Rightarrow> httpResponse \<times> world" where
  "handleDelete levelId w =
    (case datastore_Delete w levelId of
       Inl err \<Rightarrow> ((500, RespText ''Failed to delete the level''), w)
     | Inr w1 \<Rightarrow>
         let w2 = invalidateLevelCaches w1 levelId;
             w3 = invalidateChildLevelCaches w2 levelId;
             w4 = invalidateQueryCaches w3
         in ((200, RespNull), w4))"

text \<open>The first loop of \<open>handleQuery\<close>: each key is resolved, a failure adds nothing.\<close>

fun resolveKeys ::
  "string list \<Rightarrow> DatastoreLevel list \<Rightarrow> world \<Rightarrow> (DatastoreLevel list \<times> world) option" where
  "resolveKeys [] dsResults w = Some (dsResults, w)"
| "resolveKeys (element # keys) dsResults w =
     Option.bind (getLevel element w)
       (\<lambda>(r, w').
          case r of
            Inr resolvedLevel \<Rightarrow> resolveKeys keys (dsResults @ [resolvedLevel]) w'
          | Inl err \<Rightarrow> resolveKeys keys dsResults w')"

definition handleQuery :: "world \<Rightarrow> (httpResponse \<times> world) option" where
  "handleQuery w =
    (case GetCachedResource w (responseEntry queryAllKey) of
       Inr (ResponseItem cachedResponse) \<Rightarrow>
         Some ((Code cachedResponse, Response cachedResponse), w)
     | _ \<Rightarrow>
       (case queryAllKeys w of
          (keys, err) \<Rightarrow>
            Option.bind (resolveKeys keys [] w)
              (\<lambda>(dsResults, w1).
                 let response = map ToJsonLevel dsResults;
                     cacheEntry = \<lparr> Path = queryAllKey, Code = 200,
                                     Response = RespLevels response \<rparr>
                 in Some ((Code cacheEntry, Response cacheEntry),
                          CacheResource w1 (ResponseItem cacheEntry)))))"

text \<open>The routing table of \<open>Init\<close>, and a run of requests served one after another.\<close>

datatype request =
    Get string
  | Post string "JsonLevel option"
  | Put string "JsonLevel option"
  | Delete string
  | Query

fun serve :: "request \<Rightarrow> world \<Rightarrow> (httpResponse \<times> world) option" where
  "serve (Get i) w = handleGet i w"
| "serve (Post i body) w = Some (handlePost i body w)"
| "serve (Put i body) w = Some (handlePut i body w)"
| "serve (Delete i) w = Some (handleDelete i w)"
| "serve Query w = handleQuery w"

fun run :: "request list \<Rightarrow> world \<Rightarrow> world option" where
  "run [] w = Some w"
| "run (rq # rqs) w = Option.bind (serve rq w) (\<lambda>(resp, w'). run rqs w')"

definition worldAfter :: "request list \<Rightarrow> world \<Rightarrow> world" where
  "worldAfter rqs w = (case run rqs w of Some w' \<Rightarrow> w' | None \<Rightarrow> w)"

section \<open>Notions of the specification\<close>

text \<open>What a lookup in the entity cache and in the response cache returns, \<open>None\<close> on a
  miss.\<close>

definition cachedLevel :: "world \<Rightarrow> string \<Rightarrow> DatastoreLevel option" where
  "cachedLevel w i =
     (case GetCachedResource w (levelEntry i) of Inr (LevelItem v) \<Rightarrow> Some v | _ \<Rightarrow> None)"

definition cachedResponse :: "world \<Rightarrow> string \<Rightarrow> responseCacheEntry option" where
  "cachedResponse w path =
     (case GetCachedResource w (responseEntry path) of
        Inr (ResponseItem r) \<Rightarrow> Some r
      | _ \<Rightarrow> None)"

text \<open>The ids on which the resolver was entered between two worlds, oldest first.\<close>

definition resolvedDuring :: "world \<Rightarrow> world \<Rightarrow> string list" where
  "resolvedDuring w w' = drop (length (resolveLog w)) (resolveLog w')"

text \<open>
  The ten inheritable fields, each read as an optional value: \<open>None\<close> is unset. The id
  and the parent reference are not among them.
\<close>

datatype fieldName =
    FName | FRows | FColumns | FHealth | FDuration | FComboTimer
  | FUnitDelayMultiplier | FMaxActiveUnits | FSpawnsPerSecond | FSpawnFrequency

datatype fieldValue =
    VString string
  | VInt int32
  | VFloat float32
  | VTable "datastoreSpawnFrequency list"

fun field :: "fieldName \<Rightarrow> DatastoreLevel \<Rightarrow> fieldValue option" where
  "field FName l = (if HasName l then Some (VString (Name l)) else None)"
| "field FRows l = (if HasRows l then Some (VInt (Rows l)) else None)"
| "field FColumns l = (if HasColumns l then Some (VInt (Columns l)) else None)"
| "field FHealth l = (if HasHealth l then Some (VInt (Health l)) else None)"
| "field FDuration l = (if HasDuration l then Some (VInt (Duration l)) else None)"
| "field FComboTimer l = (if HasComboTimer l then Some (VFloat (ComboTimer l)) else None)"
| "field FUnitDelayMultiplier l =
     (if HasUnitDelayMultiplier l then Some (VFloat (UnitDelayMultiplier l)) else None)"
| "field FMaxActiveUnits l =
     (if HasMaxActiveUnits l then Some (VInt (MaxActiveUnits l)) else None)"
| "field FSpawnsPerSecond l =
     (if HasSpawnsPerSecond l then Some (VFloat (SpawnsPerSecond l)) else None)"
| "field FSpawnFrequency l =
     (if HasSpawnFrequency l then Some (VTable (SpawnFrequency l)) else None)"

definition allFields :: "fieldName list" where
  "allFields = [FName, FRows, FColumns, FHealth, FDuration, FComboTimer,
                FUnitDelayMultiplier, FMaxActiveUnits, FSpawnsPerSecond, FSpawnFrequency]"

definition allFieldsSet :: "DatastoreLevel \<Rightarrow> bool" where
  "allFieldsSet l = list_all (\<lambda>f. field f l \<noteq> None) allFields"

text \<open>
  The merged value of a field over a chain (the entity first, then its ancestors towards
  the root): the first value that is set, unset if none is.
\<close>

fun nearest :: "fieldName \<Rightarrow> DatastoreLevel list \<Rightarrow> fieldValue option" where
  "nearest f [] = None"
| "nearest f (e # ancestors) =
     (case field f e of Some v \<Rightarrow> Some v | None \<Rightarrow> nearest f ancestors)"

text \<open>
  The ancestor chain of an id in the store, followed for at most \<open>n\<close> steps: the entity,
  its parent, and so on up to an entity with no parent. It is \<open>None\<close> when an entity of
  the chain is missing or the root is not reached in \<open>n\<close> steps; a chain that exists
  for some \<open>n\<close> is well formed. An entity has a parent when \<open>HasParent\<close> is set and
  \<open>Parent\<close> is not the empty string, as \<open>getLevel\<close> tests it.
\<close>

fun ancestorChain ::
  "nat \<Rightarrow> (string \<times> DatastoreLevel) list \<Rightarrow> string \<Rightarrow> DatastoreLevel list option" where
  "ancestorChain 0 store i = None"
| "ancestorChain (Suc n) store i =
     (case map_of store i of
        None \<Rightarrow> None
      | Some e \<Rightarrow>
          if HasParent e \<and> length (Parent e) > 0
          then map_option ((#) e) (ancestorChain n store (Parent e))
          else Some [e])"

text \<open>
  \<open>chainEnds n store i\<close>: following parent references from \<open>i\<close> comes to an end within
  \<open>n\<close> steps, at an entity with no parent or at an id that is not in the store. It fails
  for every \<open>n\<close> exactly when the references run into a cycle.
\<close>

fun chainEnds :: "nat \<Rightarrow> (string \<times> DatastoreLevel) list \<Rightarrow> string \<Rightarrow> bool" where
  "chainEnds 0 store i = False"
| "chainEnds (Suc n) store i =
     (case map_of store i of
        None \<Rightarrow> True
      | Some e \<Rightarrow>
          if HasParent e \<and> length (Parent e) > 0 then chainEnds n store (Parent e) else True)"

text \<open>\<open>v\<close> is the merged view of the chain \<open>e # ancestors\<close>.\<close>

fun isMergedView :: "DatastoreLevel list \<Rightarrow> DatastoreLevel \<Rightarrow> bool" where
  "isMergedView [] v = False"
| "isMergedView (e # ancestors) v =
     (list_all (\<lambda>f. field f v = nearest f (e # ancestors)) allFields
      \<and> Key v = Key e \<and> HasKey v = HasKey e \<and> Parent v = Parent e \<and> HasParent v = HasParent e)"

text \<open>
  \<open>cacheCurrent w i chain\<close>: along the chain of \<open>i\<close>, an entity-cache entry, where there
  is one, holds the merged view of the rest of the chain from there.
  \<open>chainReadable w i chain\<close>: the datastore answers a \<open>Get\<close> for every id of the chain.
\<close>

fun cacheCurrent :: "world \<Rightarrow> string \<Rightarrow> DatastoreLevel list \<Rightarrow> bool" where
  "cacheCurrent w i [] = True"
| "cacheCurrent w i (e # ancestors) =
     ((case cachedLevel w i of
         Some v \<Rightarrow> isMergedView (e # ancestors) v
       | None \<Rightarrow> True)
      \<and> cacheCurrent w (Parent e) ancestors)"

fun chainReadable :: "world \<Rightarrow> string \<Rightarrow> DatastoreLevel list \<Rightarrow> bool" where
  "chainReadable w i [] = True"
| "chainReadable w i (e # ancestors) =
     (\<not> getFails w i \<and> chainReadable w (Parent e) ancestors)"

text \<open>
  The listing as the specification words it: each id is resolved in turn, in the world
  the earlier resolutions left, a resolved id contributes its view at its place in the
  order and a failed one contributes nothing.
\<close>

fun listViews :: "string list \<Rightarrow> world \<Rightarrow> (DatastoreLevel list \<times> world) option" where
  "listViews [] w = Some ([], w)"
| "listViews (k # ks) w =
     Option.bind (getLevel k w)
       (\<lambda>(r, w1).
          Option.bind (listViews ks w1)
            (\<lambda>(views, w').
               Some ((case r of Inr v \<Rightarrow> [v] | Inl err \<Rightarrow> []) @ views, w')))"

text \<open>
  \<open>listingBounded w\<close>: a lookup of the listing in the response cache, if it hits,
  returns a list of at most 100 levels. It holds when there is no entry under the
  listing key, and every handler keeps it.
\<close>

definition listingBounded :: "world \<Rightarrow> bool" where
  "listingBounded w =
     (case cachedResponse w queryAllKey of
        Some r \<Rightarrow> (case Response r of RespLevels ls \<Rightarrow> length ls \<le> 100 | _ \<Rightarrow> False)
      | None \<Rightarrow> True)"

section \<open>Concrete stores and requests\<close>

definition emptyWorld :: world where
  "emptyWorld = \<lparr> entities = [], memcache = Map.empty, getFails = (\<lambda>k. False),
                   putFails = (\<lambda>k. False), deleteFails = (\<lambda>k. False),
                   childQueryFails = (\<lambda>k. False), allQueryFault = None, resolveLog = [] \<rparr>"

definition nilLevel :: JsonLevel where
  "nilLevel = \<lparr> jKey = None, jParent = None, jName = None, jRows = None, jColumns = None,
                 jHealth = None, jDuration = None, jComboTimer = None,
                 jUnitDelayMultiplier = None, jMaxActiveUnits = None,
                 jSpawnsPerSecond = None, jSpawnFrequency = None \<rparr>"

text \<open>A root \<open>A\<close>, its child \<open>B\<close>, the grandchild \<open>G\<close>, as request bodies and as stored.\<close>

definition bodyA :: JsonLevel where
  "bodyA = nilLevel\<lparr>jRows := Some 1, jColumns := Some 2\<rparr>"

definition bodyA5 :: JsonLevel where
  "bodyA5 = nilLevel\<lparr>jRows := Some 5, jColumns := Some 2\<rparr>"

definition bodyB :: JsonLevel where
  "bodyB = nilLevel\<lparr>jParent := Some ''A'', jName := Some ''child''\<rparr>"

definition bodyG :: JsonLevel where
  "bodyG = nilLevel\<lparr>jParent := Some ''B''\<rparr>"

definition levelA :: DatastoreLevel where
  "levelA = zeroLevel\<lparr>Key := ''A'', HasKey := True, Rows := 1, HasRows := True,
                        Columns := 2, HasColumns := True\<rparr>"

definition levelA5 :: DatastoreLevel where
  "levelA5 = levelA\<lparr>Rows := 5\<rparr>"

definition levelB :: DatastoreLevel where
  "levelB = zeroLevel\<lparr>Key := ''B'', HasKey := True, Parent := ''A'', HasParent := True,
                        Name := ''child'', HasName := True\<rparr>"

definition levelG :: DatastoreLevel where
  "levelG = zeroLevel\<lparr>Key := ''G'', HasKey := True, Parent := ''B'', HasParent := True\<rparr>"

text \<open>The merged view of \<open>B\<close> while \<open>A\<close> has one row.\<close>

definition viewB :: DatastoreLevel where
  "viewB = levelB\<lparr>Rows := 1, HasRows := True, Columns := 2, HasColumns := True\<rparr>"

text \<open>The three levels stored, nothing cached; then \<open>A\<close> read once, so that it is cached.\<close>

definition familyCold :: world where
  "familyCold = worldAfter [Post ''A'' (Some bodyA), Post ''B'' (Some bodyB),
                            Post ''G'' (Some bodyG)] emptyWorld"

definition familyWarmA :: world where
  "familyWarmA = worldAfter [Get ''A''] familyCold"

text \<open>The family listed once, so that the listing is cached.\<close>

definition familyListed :: world where
  "familyListed = worldAfter [Query] familyCold"

text \<open>The requests of the grandchild scenario: the family is stored, \<open>G\<close> is read (which
  caches \<open>G\<close>, \<open>B\<close> and \<open>A\<close>), then \<open>A\<close> is overwritten with five rows.\<close>

definition grandchildRequests :: "request list" where
  "grandchildRequests =
     [Post ''A'' (Some bodyA), Post ''B'' (Some bodyB), Post ''G'' (Some bodyG),
      Get ''G'', Post ''A'' (Some bodyA5)]"

definition grandchildWorld :: world where
  "grandchildWorld = worldAfter grandchildRequests emptyWorld"

text \<open>\<open>A\<close> and \<open>B\<close> stored and \<open>B\<close> read; from then on the children query fails.\<close>

definition childCached :: world where
  "childCached =
     (worldAfter [Post ''A'' (Some bodyA), Post ''B'' (Some bodyB), Get ''B''] emptyWorld)
       \<lparr>childQueryFails := (\<lambda>k. True)\<rparr>"

definition staleChild :: world where
  "staleChild = worldAfter [Post ''A'' (Some bodyA5)] childCached"

definition orphanChild :: world where
  "orphanChild = worldAfter [Delete ''A''] childCached"

text \<open>A child \<open>F\<close> of \<open>A\<close> that sets every field itself.\<close>

definition bodyF :: JsonLevel where
  "bodyF = \<lparr> jKey = None, jParent = Some ''A'', jName = Some ''full'', jRows = Some 3,
              jColumns = Some 4, jHealth = Some 10, jDuration = Some 60,
              jComboTimer = Some 7, jUnitDelayMultiplier = Some 8, jMaxActiveUnits = Some 9,
              jSpawnsPerSecond = Some 11, jSpawnFrequency = Some DAList.empty \<rparr>"

definition levelF :: DatastoreLevel where
  "levelF = \<lparr> Key = ''F'', HasKey = True, Parent = ''A'', HasParent = True,
     Name = ''full'', HasName = True, Rows = 3, HasRows = True,
     Columns = 4, HasColumns = True, Health = 10, HasHealth = True,
     Duration = 60, HasDuration = True, ComboTimer = 7, HasComboTimer = True,
     UnitDelayMultiplier = 8, HasUnitDelayMultiplier = True,
     MaxActiveUnits = 9, HasMaxActiveUnits = True,
     SpawnsPerSecond = 11, HasSpawnsPerSecond = True,
     SpawnFrequency = [], HasSpawnFrequency = True \<rparr>"

definition fullChildWorld :: world where
  "fullChildWorld = worldAfter [Post ''A'' (Some bodyA), Post ''F'' (Some bodyF)] emptyWorld"

text \<open>\<open>A\<close>, then \<open>D\<close> whose parent was never stored, then \<open>B\<close>.\<close>

definition bodyD :: JsonLevel where
  "bodyD = nilLevel\<lparr>jParent := Some ''missing''\<rparr>"

definition levelD :: DatastoreLevel where
  "levelD = zeroLevel\<lparr>Key := ''D'', HasKey := True, Parent := ''missing'', HasParent := True\<rparr>"

definition danglingWorld :: world where
  "danglingWorld = worldAfter [Post ''A'' (Some bodyA), Post ''D'' (Some bodyD),
                               Post ''B'' (Some bodyB)] emptyWorld"


text \<open>A body that names another key than the path does; an empty store whose children
  query fails.\<close>

definition bodyOtherKey :: JsonLevel where
  "bodyOtherKey = nilLevel\<lparr>jKey := Some ''other'', jRows := Some 1\<rparr>"

definition childQueryOutage :: world where
  "childQueryOutage = emptyWorld\<lparr>childQueryFails := (\<lambda>k. True)\<rparr>"

section \<open>Conversion round trip\<close>

text \<open>Each step of \<open>ToDatastoreLevel\<close> as one unconditional update of its two fields.\<close>

lemma fromKey_update:
  "fromKey p r = r\<lparr>Key := (case p of None \<Rightarrow> Key r | Some v \<Rightarrow> v),
                   HasKey := (case p of None \<Rightarrow> HasKey r | Some v \<Rightarrow> True)\<rparr>"
  by (cases p) (simp_all add: fromKey_def)

lemma fromParent_update:
  "fromParent p r = r\<lparr>Parent := (case p of None \<Rightarrow> Parent r | Some v \<Rightarrow> v),
                   HasParent := (case p of None \<Rightarrow> HasParent r | Some v \<Rightarrow> True)\<rparr>"
  by (cases p) (simp_all add: fromParent_def)

lemma fromName_update:
  "fromName p r = r\<lparr>Name := (case p of None \<Rightarrow> Name r | Some v \<Rightarrow> v),
                   HasName := (case p of None \<Rightarrow> HasName r | Some v \<Rightarrow> True)\<rparr>"
  by (cases p) (simp_all add: fromName_def)

lemma fromRows_update:
  "fromRows p r = r\<lparr>Rows := (case p of None \<Rightarrow> Rows r | Some v \<Rightarrow> v),
                   HasRows := (case p of None \<Rightarrow> HasRows r | Some v \<Rightarrow> True)\<rparr>"
  by (cases p) (simp_all add: fromRows_def)

lemma fromColumns_update:
  "fromColumns p r = r\<lparr>Columns := (case p of None \<Rightarrow> Columns r | Some v \<Rightarrow> v),
                   HasColumns := (case p of None \<Rightarrow> HasColumns r | Some v \<Rightarrow> True)\<rparr>"
  by (cases p) (simp_all add: fromColumns_def)

lemma fromHealth_update:
  "fromHealth p r = r\<lparr>Health := (case p of None \<Rightarrow> Health r | Some v \<Rightarrow> v),
                   HasHealth := (case p of None \<Rightarrow> HasHealth r | Some v \<Rightarrow> True)\<rparr>"
  by (cases p) (simp_all add: fromHealth_def)

lemma fromDuration_update:
  "fromDuration p r = r\<lparr>Duration := (case p of None \<Rightarrow> Duration r | Some v \<Rightarrow> v),
                   HasDuration := (case p of None \<Rightarrow> HasDuration r | Some v \<Rightarrow> True)\<rparr>"
  by (cases p) (simp_all add: fromDuration_def)

lemma fromComboTimer_update:
  "fromComboTimer p r = r\<lparr>ComboTimer := (case p of None \<Rightarrow> ComboTimer r | Some v \<Rightarrow> v),
                   HasComboTimer := (case p of None \<Rightarrow> HasComboTimer r | Some v \<Rightarrow> True)\<rparr>"
  by (cases p) (simp_all add: fromComboTimer_def)

lemma fromUnitDelayMultiplier_update:
  "fromUnitDelayMultiplier p r = r\<lparr>UnitDelayMultiplier := (case p of None \<Rightarrow> UnitDelayMultiplier r | Some v \<Rightarrow> v),
                   HasUnitDelayMultiplier := (case p of None \<Rightarrow> HasUnitDelayMultiplier r | Some v \<Rightarrow> True)\<rparr>"
  by (cases p) (simp_all add: fromUnitDelayMultiplier_def)

lemma fromMaxActiveUnits_update:
  "fromMaxActiveUnits p r = r\<lparr>MaxActiveUnits := (case p of None \<Rightarrow> MaxActiveUnits r | Some v \<Rightarrow> v),
                   HasMaxActiveUnits := (case p of None \<Rightarrow> HasMaxActiveUnits r | Some v \<Rightarrow> True)\<rparr>"
  by (cases p) (simp_all add: fromMaxActiveUnits_def)

lemma fromSpawnsPerSecond_update:
  "fromSpawnsPerSecond p r = r\<lparr>SpawnsPerSecond := (case p of None \<Rightarrow> SpawnsPerSecond r | Some v \<Rightarrow> v),
                   HasSpawnsPerSecond := (case p of None \<Rightarrow> HasSpawnsPerSecond r | Some v \<Rightarrow> True)\<rparr>"
  by (cases p) (simp_all add: fromSpawnsPerSecond_def)

lemma foldl_append_spawn:
  "foldl (\<lambda>acc kv. acc @ [spawnElement kv]) acc0 xs = acc0 @ map spawnElement xs"
  by (induction xs arbitrary: acc0) simp_all

lemma fromSpawnFrequency_update:
  "fromSpawnFrequency p r =
     r\<lparr>SpawnFrequency := (case p of None \<Rightarrow> SpawnFrequency r
          | Some m \<Rightarrow> SpawnFrequency r @ map spawnElement (DAList.impl_of m)),
       HasSpawnFrequency := (case p of None \<Rightarrow> HasSpawnFrequency r | Some m \<Rightarrow> True)\<rparr>"
  by (cases p) (simp_all add: fromSpawnFrequency_def foldl_append_spawn)

lemmas from_updates = fromKey_update fromParent_update fromName_update fromRows_update fromColumns_update fromHealth_update fromDuration_update fromComboTimer_update fromUnitDelayMultiplier_update fromMaxActiveUnits_update fromSpawnsPerSecond_update fromSpawnFrequency_update

lemma pointer_rebuilt:
  "(if (case p of None \<Rightarrow> False | Some v \<Rightarrow> True)
    then Some (case p of None \<Rightarrow> d | Some v \<Rightarrow> v) else None) = p"
  by (cases p) simp_all

lemma update_fresh_append:
  "k \<notin> fst ` set ys \<Longrightarrow> AList.update k v ys = ys @ [(k, v)]"
  by (induction ys) auto

lemma foldl_update_distinct:
  "distinct (map fst (ys @ xs)) \<Longrightarrow>
   foldl (\<lambda>m kv. AList.update (fst kv) (snd kv) m) ys xs = ys @ xs"
proof (induction xs arbitrary: ys)
  case Nil
  then show ?case by simp
next
  case (Cons x xs)
  have fresh: "fst x \<notin> fst ` set ys" using Cons.prems by auto
  have "distinct (map fst ((ys @ [x]) @ xs))" using Cons.prems by simp
  from Cons.IH [OF this] show ?case
    by (simp add: update_fresh_append [OF fresh])
qed

lemma impl_of_spawnMap_gen:
  "DAList.impl_of (foldl (\<lambda>m element. DAList.update (UnitType element) (Frequency element) m)
      m0 (map spawnElement xs))
   = foldl (\<lambda>m kv. AList.update (fst kv) (snd kv) m) (DAList.impl_of m0) xs"
  by (induction xs arbitrary: m0) (simp_all add: spawnElement_def DAList.update.rep_eq)

lemma spawnMap_roundtrip: "spawnMap (map spawnElement (DAList.impl_of m)) = m"
proof -
  have d: "distinct (map fst ([] @ DAList.impl_of m))"
    using DAList.impl_of [of m] by simp
  have "DAList.impl_of (spawnMap (map spawnElement (DAList.impl_of m))) = DAList.impl_of m"
    unfolding spawnMap_def impl_of_spawnMap_gen
    using foldl_update_distinct [OF d] by (simp add: DAList.empty.rep_eq)
  then show ?thesis by (simp add: DAList.impl_of_inject)
qed

lemma spawn_pointer_rebuilt:
  "(if (case p of None \<Rightarrow> False | Some m \<Rightarrow> True)
    then Some (spawnMap (case p of None \<Rightarrow> []
                         | Some m \<Rightarrow> map spawnElement (DAList.impl_of m)))
    else None) = p"
  by (cases p) (simp_all add: spawnMap_roundtrip)

section \<open>Frame lemmas: what the cache operations leave alone\<close>

lemma CacheResource_frame [simp]:
  "entities (CacheResource w item) = entities w"
  "getFails (CacheResource w item) = getFails w"
  "putFails (CacheResource w item) = putFails w"
  "deleteFails (CacheResource w item) = deleteFails w"
  "childQueryFails (CacheResource w item) = childQueryFails w"
  "allQueryFault (CacheResource w item) = allQueryFault w"
  "resolveLog (CacheResource w item) = resolveLog w"
  by (simp_all add: CacheResource_def split: sum.split)

lemma InvalidateCacheEntry_frame [simp]:
  "entities (InvalidateCacheEntry w item) = entities w"
  "getFails (InvalidateCacheEntry w item) = getFails w"
  "putFails (InvalidateCacheEntry w item) = putFails w"
  "deleteFails (InvalidateCacheEntry w item) = deleteFails w"
  "childQueryFails (InvalidateCacheEntry w item) = childQueryFails w"
  "allQueryFault (InvalidateCacheEntry w item) = allQueryFault w"
  "resolveLog (InvalidateCacheEntry w item) = resolveLog w"
  by (simp_all add: InvalidateCacheEntry_def)

lemma invalidateLevelCaches_frame [simp]:
  "entities (invalidateLevelCaches w k) = entities w"
  "getFails (invalidateLevelCaches w k) = getFails w"
  "putFails (invalidateLevelCaches w k) = putFails w"
  "deleteFails (invalidateLevelCaches w k) = deleteFails w"
  "childQueryFails (invalidateLevelCaches w k) = childQueryFails w"
  "allQueryFault (invalidateLevelCaches w k) = allQueryFault w"
  "resolveLog (invalidateLevelCaches w k) = resolveLog w"
  by (simp_all add: invalidateLevelCaches_def Let_def)

lemma invalidate_each_frame [simp]:
  "entities (foldl invalidateLevelCaches w ks) = entities w"
  "getFails (foldl invalidateLevelCaches w ks) = getFails w"
  "putFails (foldl invalidateLevelCaches w ks) = putFails w"
  "deleteFails (foldl invalidateLevelCaches w ks) = deleteFails w"
  "childQueryFails (foldl invalidateLevelCaches w ks) = childQueryFails w"
  "allQueryFault (foldl invalidateLevelCaches w ks) = allQueryFault w"
  "resolveLog (foldl invalidateLevelCaches w ks) = resolveLog w"
  by (induction ks arbitrary: w) simp_all

lemma invalidateChildLevelCaches_frame [simp]:
  "entities (invalidateChildLevelCaches w k) = entities w"
  "getFails (invalidateChildLevelCaches w k) = getFails w"
  "putFails (invalidateChildLevelCaches w k) = putFails w"
  "deleteFails (invalidateChildLevelCaches w k) = deleteFails w"
  "childQueryFails (invalidateChildLevelCaches w k) = childQueryFails w"
  "allQueryFault (invalidateChildLevelCaches w k) = allQueryFault w"
  "resolveLog (invalidateChildLevelCaches w k) = resolveLog w"
  by (simp_all add: invalidateChildLevelCaches_def split: prod.split option.split)

lemma invalidateQueryCaches_frame [simp]:
  "entities (invalidateQueryCaches w) = entities w"
  "getFails (invalidateQueryCaches w) = getFails w"
  "putFails (invalidateQueryCaches w) = putFails w"
  "deleteFails (invalidateQueryCaches w) = deleteFails w"
  "childQueryFails (invalidateQueryCaches w) = childQueryFails w"
  "allQueryFault (invalidateQueryCaches w) = allQueryFault w"
  "resolveLog (invalidateQueryCaches w) = resolveLog w"
  by (simp_all add: invalidateQueryCaches_def)

section \<open>Upserts and deletes, unfolded\<close>

lemma ToDatastoreLevel_path_key:
  "Key (ToDatastoreLevel (level\<lparr>jKey := Some pathId\<rparr>)) = pathId"
  "HasKey (ToDatastoreLevel (level\<lparr>jKey := Some pathId\<rparr>)) = True"
  by (simp_all add: ToDatastoreLevel_def Let_def from_updates cong: option.case_cong if_cong)

lemma handlePost_stored:
  assumes "\<not> putFails w pathId"
  shows "handlePost pathId (Some body) w =
           ((200, RespNull),
            invalidateQueryCaches (invalidateChildLevelCaches (invalidateLevelCaches
              (w\<lparr>entities := AList.update pathId (ToDatastoreLevel (body\<lparr>jKey := Some pathId\<rparr>))
                   (entities w)\<rparr>) pathId) pathId))"
  using assms by (simp add: handlePost_def Let_def datastore_Put_def ToDatastoreLevel_path_key)

lemma handleDelete_done:
  assumes "\<not> deleteFails w levelId"
  shows "handleDelete levelId w =
           ((200, RespNull),
            invalidateQueryCaches (invalidateChildLevelCaches (invalidateLevelCaches
              (w\<lparr>entities := AList.delete levelId (entities w)\<rparr>) levelId) levelId))"
  using assms by (simp add: handleDelete_def Let_def datastore_Delete_def)


section \<open>The resolver, step by step\<close>

lemma GetCachedResource_log [simp]:
  "GetCachedResource (w\<lparr>resolveLog := l\<rparr>) item = GetCachedResource w item"
  by (simp add: GetCachedResource_def)

lemma datastore_Get_log [simp]:
  "datastore_Get (w\<lparr>resolveLog := l\<rparr>) key = datastore_Get w key"
  by (simp add: datastore_Get_def)

lemma GetCachedResource_level_kind:
  "GetCachedResource w (levelEntry i) = Inr x \<Longrightarrow> \<exists>v. x = LevelItem v"
  by (auto simp: GetCachedResource_def UnmarshalBinary_def levelEntry_def
      split: option.splits bytes.splits)

lemma cachedLevel_log [simp]:
  "cachedLevel (w\<lparr>resolveLog := l\<rparr>) i = cachedLevel w i"
  by (simp add: cachedLevel_def)

lemma cachedLevel_hit:
  "GetCachedResource w (levelEntry i) = Inr (LevelItem v) \<Longrightarrow> cachedLevel w i = Some v"
  by (simp add: cachedLevel_def)

lemma getLevel_hit:
  "GetCachedResource w (levelEntry i) = Inr (LevelItem v) \<Longrightarrow>
   getLevel i w = Some (Inr v, w\<lparr>resolveLog := resolveLog w @ [i]\<rparr>)"
  by (subst getLevel.simps) (simp add: Let_def)

lemma getLevel_absent:
  "GetCachedResource w (levelEntry i) = Inl c \<Longrightarrow> datastore_Get w i = Inl err \<Longrightarrow>
   getLevel i w = Some (Inl err, w\<lparr>resolveLog := resolveLog w @ [i]\<rparr>)"
  by (subst getLevel.simps) (simp add: Let_def)

lemma getLevel_root:
  "GetCachedResource w (levelEntry i) = Inl c \<Longrightarrow> datastore_Get w i = Inr e \<Longrightarrow>
   \<not> (HasParent e \<and> Parent e \<noteq> []) \<Longrightarrow>
   getLevel i w = Some (Inr e, CacheResource (w\<lparr>resolveLog := resolveLog w @ [i]\<rparr>) (LevelItem e))"
  by (subst getLevel.simps) (auto simp: Let_def)

lemma getLevel_child:
  "GetCachedResource w (levelEntry i) = Inl c \<Longrightarrow> datastore_Get w i = Inr e \<Longrightarrow>
   HasParent e \<Longrightarrow> Parent e \<noteq> [] \<Longrightarrow>
   getLevel i w =
     Option.bind (getLevel (Parent e) (w\<lparr>resolveLog := resolveLog w @ [i]\<rparr>))
       (\<lambda>(r, w').
          case r of
            Inl err \<Rightarrow> Some (Inl err, w')
          | Inr parentLevel \<Rightarrow>
              Some (Inr (MergeParentProperties e parentLevel),
                    CacheResource w' (LevelItem (MergeParentProperties e parentLevel))))"
  apply (subst getLevel.simps)
  unfolding Let_def
  by simp

lemmas getLevel_induct = getLevel.raw_induct [rotated 1, consumes 1, case_names step]

lemma getLevel_frame:
  assumes "getLevel i w = Some y"
  shows "entities (snd y) = entities w \<and> getFails (snd y) = getFails w
   \<and> putFails (snd y) = putFails w \<and> deleteFails (snd y) = deleteFails w
   \<and> childQueryFails (snd y) = childQueryFails w \<and> allQueryFault (snd y) = allQueryFault w
   \<and> (\<exists>rest. resolveLog (snd y) = resolveLog w @ i # rest)"
  using assms
proof (induction rule: getLevel_induct)
  case (step getLevel' levelId w0 y)
  note IH = step(1) and body = step(2) [unfolded Let_def]
  show ?case
  proof (cases "GetCachedResource w0 (levelEntry levelId)")
    case (Inr x)
    then obtain v where "x = LevelItem v" using GetCachedResource_level_kind by blast
    with Inr body have "y = (Inr v, w0\<lparr>resolveLog := resolveLog w0 @ [levelId]\<rparr>)" by simp
    then show ?thesis by simp
  next
    case (Inl c)
    show ?thesis
    proof (cases "datastore_Get w0 levelId")
      case miss: (Inl err)
      with Inl body have "y = (Inl err, w0\<lparr>resolveLog := resolveLog w0 @ [levelId]\<rparr>)" by simp
      then show ?thesis by simp
    next
      case (Inr e)
      show ?thesis
      proof (cases "HasParent e \<and> Parent e \<noteq> []")
        case False
        with Inl Inr body have
          "y = (Inr e, CacheResource (w0\<lparr>resolveLog := resolveLog w0 @ [levelId]\<rparr>) (LevelItem e))"
          by auto
        then show ?thesis by simp
      next
        case True
        with Inl Inr body have
          "Option.bind (getLevel' (Parent e) (w0\<lparr>resolveLog := resolveLog w0 @ [levelId]\<rparr>))
             (\<lambda>(r, w'). case r of Inl err \<Rightarrow> Some (Inl err, w')
                | Inr p \<Rightarrow> Some (Inr (MergeParentProperties e p),
                                   CacheResource w' (LevelItem (MergeParentProperties e p))))
           = Some y" by simp
        then obtain r w' where
          rec: "getLevel' (Parent e) (w0\<lparr>resolveLog := resolveLog w0 @ [levelId]\<rparr>) = Some (r, w')"
          and y: "(case r of Inl err \<Rightarrow> Some (Inl err, w')
                       | Inr p \<Rightarrow> Some (Inr (MergeParentProperties e p),
                                   CacheResource w' (LevelItem (MergeParentProperties e p)))) = Some y"
          by (auto split: Option.bind_splits)
        have "snd y = w' \<or> (\<exists>item. snd y = CacheResource w' item)"
          using y by (cases r) auto
        with IH [OF rec] show ?thesis by auto
      qed
    qed
  qed
qed

section \<open>Merging\<close>

lemma merge_steps_update:
  "mergeName l p = l\<lparr>HasName := HasName l \<or> HasName p,
                      Name := if \<not> HasName l \<and> HasName p then Name p else Name l\<rparr>"
  "mergeRows l p = l\<lparr>HasRows := HasRows l \<or> HasRows p,
                      Rows := if \<not> HasRows l \<and> HasRows p then Rows p else Rows l\<rparr>"
  "mergeColumns l p = l\<lparr>HasColumns := HasColumns l \<or> HasColumns p,
                      Columns := if \<not> HasColumns l \<and> HasColumns p then Columns p else Columns l\<rparr>"
  "mergeHealth l p = l\<lparr>HasHealth := HasHealth l \<or> HasHealth p,
                      Health := if \<not> HasHealth l \<and> HasHealth p then Health p else Health l\<rparr>"
  "mergeDuration l p = l\<lparr>HasDuration := HasDuration l \<or> HasDuration p,
                      Duration := if \<not> HasDuration l \<and> HasDuration p then Duration p else Duration l\<rparr>"
  "mergeComboTimer l p = l\<lparr>HasComboTimer := HasComboTimer l \<or> HasComboTimer p,
                      ComboTimer := if \<not> HasComboTimer l \<and> HasComboTimer p
                                    then ComboTimer p else ComboTimer l\<rparr>"
  "mergeUnitDelayMultiplier l p =
     l\<lparr>HasUnitDelayMultiplier := HasUnitDelayMultiplier l \<or> HasUnitDelayMultiplier p,
       UnitDelayMultiplier := if \<not> HasUnitDelayMultiplier l \<and> HasUnitDelayMultiplier p
                              then UnitDelayMultiplier p else UnitDelayMultiplier l\<rparr>"
  "mergeMaxActiveUnits l p =
     l\<lparr>HasMaxActiveUnits := HasMaxActiveUnits l \<or> HasMaxActiveUnits p,
       MaxActiveUnits := if \<not> HasMaxActiveUnits l \<and> HasMaxActiveUnits p
                         then MaxActiveUnits p else MaxActiveUnits l\<rparr>"
  "mergeSpawnsPerSecond l p =
     l\<lparr>HasSpawnsPerSecond := HasSpawnsPerSecond l \<or> HasSpawnsPerSecond p,
       SpawnsPerSecond := if \<not> HasSpawnsPerSecond l \<and> HasSpawnsPerSecond p
                          then SpawnsPerSecond p else SpawnsPerSecond l\<rparr>"
  "mergeSpawnFrequency l p =
     l\<lparr>HasSpawnFrequency := HasSpawnFrequency l \<or> HasSpawnFrequency p,
       SpawnFrequency := if \<not> HasSpawnFrequency l \<and> HasSpawnFrequency p
                         then SpawnFrequency p else SpawnFrequency l\<rparr>"
  by (simp_all add: mergeName_def mergeRows_def mergeColumns_def mergeHealth_def
      mergeDuration_def mergeComboTimer_def mergeUnitDelayMultiplier_def
      mergeMaxActiveUnits_def mergeSpawnsPerSecond_def mergeSpawnFrequency_def)

lemma Merge_own [simp]:
  "Key (MergeParentProperties l p) = Key l"
  "HasKey (MergeParentProperties l p) = HasKey l"
  "Parent (MergeParentProperties l p) = Parent l"
  "HasParent (MergeParentProperties l p) = HasParent l"
  by (simp_all add: MergeParentProperties_def Let_def merge_steps_update cong: if_cong)

lemma field_Merge:
  "field f (MergeParentProperties l p) =
     (case field f l of Some v \<Rightarrow> Some v | None \<Rightarrow> field f p)"
  by (cases f) (simp_all add: MergeParentProperties_def Let_def merge_steps_update cong: if_cong)

section \<open>Resolution along a chain\<close>

declare isMergedView.simps [simp del]

lemma allFields_complete: "f \<in> set allFields"
  by (cases f) (simp_all add: allFields_def)

lemma isMergedView_iff:
  "isMergedView (e # ancestors) v \<longleftrightarrow>
     (\<forall>f. field f v = nearest f (e # ancestors))
     \<and> Key v = Key e \<and> HasKey v = HasKey e \<and> Parent v = Parent e \<and> HasParent v = HasParent e"
  using allFields_complete by (auto simp: isMergedView.simps list_all_iff)

lemma cacheCurrent_log [simp]:
  "cacheCurrent (w\<lparr>resolveLog := l\<rparr>) i es = cacheCurrent w i es"
  by (induction es arbitrary: i) simp_all

lemma chainReadable_log [simp]:
  "chainReadable (w\<lparr>resolveLog := l\<rparr>) i es = chainReadable w i es"
  by (induction es arbitrary: i) simp_all

lemma resolve_chain:
  assumes "ancestorChain n (entities w) levelId = Some es"
      and "chainReadable w levelId es"
      and "cacheCurrent w levelId es"
  shows "\<exists>v w'. getLevel levelId w = Some (Inr v, w') \<and> isMergedView es v"
  using assms
proof (induction n arbitrary: levelId es w)
  case 0
  then show ?case by simp
next
  case (Suc n)
  let ?w = "w\<lparr>resolveLog := resolveLog w @ [levelId]\<rparr>"
  from Suc.prems(1) obtain e where e: "map_of (entities w) levelId = Some e"
    by (auto split: option.splits)
  from Suc.prems(1) e obtain ancestors where es: "es = e # ancestors"
    by (auto split: if_splits)
  have get: "datastore_Get w levelId = Inr e"
    using e es Suc.prems(2) by (simp add: datastore_Get_def)
  show ?case
  proof (cases "GetCachedResource w (levelEntry levelId)")
    case (Inr x)
    then obtain v where x: "x = LevelItem v" using GetCachedResource_level_kind by blast
    with Inr have "cachedLevel w levelId = Some v" by (simp add: cachedLevel_hit)
    with Suc.prems(3) es have "isMergedView es v" by simp
    with getLevel_hit Inr x show ?thesis by blast
  next
    case (Inl c)
    show ?thesis
    proof (cases "HasParent e \<and> Parent e \<noteq> []")
      case False
      with Suc.prems(1) e have "es = [e]" by auto
      then have "isMergedView es e" by (simp add: isMergedView_iff split: option.split)
      with getLevel_root [OF Inl get False] show ?thesis by blast
    next
      case True
      with Suc.prems(1) e es have chain': "ancestorChain n (entities ?w) (Parent e) = Some ancestors"
        by auto
      have cur': "cacheCurrent ?w (Parent e) ancestors"
        using Suc.prems(3) es by simp
      have nf: "chainReadable ?w (Parent e) ancestors" using Suc.prems(2) es by simp
      from Suc.IH [OF chain' nf cur'] obtain pv w' where
        rec: "getLevel (Parent e) ?w = Some (Inr pv, w')" and pv: "isMergedView ancestors pv"
        by blast
      from pv obtain a as where anc: "ancestors = a # as"
        by (cases ancestors) (auto simp: isMergedView.simps)
      have fields: "\<forall>f. field f pv = nearest f ancestors"
        using pv anc by (simp add: isMergedView_iff)
      have "isMergedView (e # ancestors) (MergeParentProperties e pv)"
        using fields by (simp add: isMergedView_iff field_Merge split: option.split)
      moreover have "getLevel levelId w =
          Some (Inr (MergeParentProperties e pv),
                CacheResource w' (LevelItem (MergeParentProperties e pv)))"
        using True getLevel_child [OF Inl get] rec by simp
      ultimately show ?thesis using es by blast
    qed
  qed
qed


section \<open>The listing loop\<close>

lemma getLevel_total:
  "chainEnds n (entities w) i \<Longrightarrow> \<exists>y. getLevel i w = Some y"
proof (induction n arbitrary: i w)
  case 0
  then show ?case by simp
next
  case (Suc n)
  let ?w = "w\<lparr>resolveLog := resolveLog w @ [i]\<rparr>"
  show ?case
  proof (cases "GetCachedResource w (levelEntry i)")
    case (Inr x)
    then obtain v where "x = LevelItem v" using GetCachedResource_level_kind by blast
    with Inr getLevel_hit show ?thesis by blast
  next
    case (Inl c)
    show ?thesis
    proof (cases "datastore_Get w i")
      case miss: (Inl err)
      from getLevel_absent [OF Inl miss] show ?thesis by blast
    next
      case (Inr e)
      then have e: "map_of (entities w) i = Some e"
        by (auto simp: datastore_Get_def split: if_splits option.splits)
      show ?thesis
      proof (cases "HasParent e \<and> Parent e \<noteq> []")
        case False
        from getLevel_root [OF Inl Inr False] show ?thesis by blast
      next
        case True
        with Suc.prems e have "chainEnds n (entities ?w) (Parent e)" by simp
        from Suc.IH [OF this] obtain r w' where "getLevel (Parent e) ?w = Some (r, w')"
          by auto
        with True getLevel_child [OF Inl Inr] show ?thesis
          by (cases r) auto
      qed
    qed
  qed
qed

lemma resolveKeys_listViews:
  "resolveKeys ks acc w = map_option (\<lambda>(views, w'). (acc @ views, w')) (listViews ks w)"
proof (induction ks arbitrary: acc w)
  case Nil
  then show ?case by simp
next
  case (Cons k ks)
  show ?case
  proof (cases "getLevel k w")
    case None
    then show ?thesis by simp
  next
    case (Some y)
    obtain r w1 where y: "y = (r, w1)" by (cases y)
    show ?thesis
    proof (cases "listViews ks w1")
      case None
      with Some y Cons.IH show ?thesis by (cases r) simp_all
    next
      case inner: (Some z)
      obtain views w' where "z = (views, w')" by (cases z)
      with Some y inner Cons.IH show ?thesis by (cases r) simp_all
    qed
  qed
qed

lemma listViews_total:
  "list_all (chainEnds n (entities w)) ks \<Longrightarrow>
   \<exists>views w'. listViews ks w = Some (views, w') \<and> length views \<le> length ks
              \<and> entities w' = entities w"
proof (induction ks arbitrary: w)
  case Nil
  then show ?case by simp
next
  case (Cons k ks)
  from Cons.prems have "chainEnds n (entities w) k" by simp
  from getLevel_total [OF this] obtain r w1 where g: "getLevel k w = Some (r, w1)" by auto
  from getLevel_frame [OF g] have ent: "entities w1 = entities w" by simp
  with Cons.prems have "list_all (chainEnds n (entities w1)) ks" by simp
  from Cons.IH [OF this] obtain views w' where
    "listViews ks w1 = Some (views, w')" "length views \<le> length ks" "entities w' = entities w1"
    by blast
  with g ent show ?case by (cases r) auto
qed

lemma queryAllKeys_bound: "length (fst (queryAllKeys w)) \<le> 100"
  by (auto simp: queryAllKeys_def Let_def split: option.split)

lemma GetCachedResource_response_kind:
  "GetCachedResource w (responseEntry p) = Inr x \<Longrightarrow> \<exists>r. x = ResponseItem r"
  by (auto simp: GetCachedResource_def UnmarshalBinary_def responseEntry_def
      split: option.splits bytes.splits)

lemma handleQuery_miss:
  assumes "GetCachedResource w (responseEntry queryAllKey) = Inl c"
      and "listViews (fst (queryAllKeys w)) w = Some (views, w1)"
  shows "handleQuery w =
           Some ((200, RespLevels (map ToJsonLevel views)),
                 CacheResource w1
                   (ResponseItem \<lparr> Path = queryAllKey, Code = 200,
                                   Response = RespLevels (map ToJsonLevel views) \<rparr>))"
  using assms
  by (cases "queryAllKeys w") (simp add: handleQuery_def resolveKeys_listViews Let_def)


lemma listViews_append:
  "listViews (ks1 @ ks2) w =
     Option.bind (listViews ks1 w)
       (\<lambda>(vs1, w1). Option.bind (listViews ks2 w1) (\<lambda>(vs2, w2). Some (vs1 @ vs2, w2)))"
proof (induction ks1 arbitrary: w)
  case Nil
  then show ?case by (cases "listViews ks2 w") auto
next
  case (Cons k ks1)
  show ?case
  proof (cases "getLevel k w")
    case None
    then show ?thesis by simp
  next
    case (Some y)
    obtain r w1 where y: "y = (r, w1)" by (cases y)
    show ?thesis
    proof (cases "listViews ks1 w1")
      case None
      with Some y Cons.IH show ?thesis by simp
    next
      case first: (Some z)
      obtain vs1 w2 where z: "z = (vs1, w2)" by (cases z)
      show ?thesis
      proof (cases "listViews ks2 w2")
        case None
        with Some y first z Cons.IH show ?thesis by simp
      next
        case second: (Some u)
        obtain vs2 w3 where "u = (vs2, w3)" by (cases u)
        with Some y first z second Cons.IH show ?thesis by simp
      qed
    qed
  qed
qed

section \<open>The listing entry stays bounded\<close>

lemma CacheResource_other_key:
  "k \<noteq> GetCacheKey item \<Longrightarrow> memcache (CacheResource w item) k = memcache w k"
  by (simp add: CacheResource_def split: sum.split)

lemma entity_path_not_listing: "''/levels/'' @ i \<noteq> queryAllKey"
  by (simp add: queryAllKey_def)

lemma getLevel_response_cache:
  assumes "getLevel i w = Some y"
  shows "memcache (snd y) (''response:'' @ p) = memcache w (''response:'' @ p)"
  using assms
proof (induction rule: getLevel_induct)
  case (step getLevel' levelId w0 y)
  note IH = step(1) and body = step(2) [unfolded Let_def]
  let ?w = "w0\<lparr>resolveLog := resolveLog w0 @ [levelId]\<rparr>"
  have other: "\<And>w v. memcache (CacheResource w (LevelItem v)) (''response:'' @ p)
                      = memcache w (''response:'' @ p)"
    by (rule CacheResource_other_key) (simp add: GetCacheKey_def)
  show ?case
  proof (cases "GetCachedResource w0 (levelEntry levelId)")
    case (Inr x)
    then obtain v where "x = LevelItem v" using GetCachedResource_level_kind by blast
    with Inr body have "y = (Inr v, ?w)" by simp
    then show ?thesis by simp
  next
    case (Inl c)
    show ?thesis
    proof (cases "datastore_Get w0 levelId")
      case miss: (Inl err)
      with Inl body have "y = (Inl err, ?w)" by simp
      then show ?thesis by simp
    next
      case (Inr e)
      show ?thesis
      proof (cases "HasParent e \<and> Parent e \<noteq> []")
        case False
        with Inl Inr body have "y = (Inr e, CacheResource ?w (LevelItem e))" by auto
        then show ?thesis by (simp add: other [simplified])
      next
        case True
        with Inl Inr body have
          "Option.bind (getLevel' (Parent e) ?w)
             (\<lambda>(r, w'). case r of Inl err \<Rightarrow> Some (Inl err, w')
                | Inr p \<Rightarrow> Some (Inr (MergeParentProperties e p),
                                   CacheResource w' (LevelItem (MergeParentProperties e p))))
           = Some y" by simp
        then obtain r w' where
          rec: "getLevel' (Parent e) ?w = Some (r, w')"
          and y: "(case r of Inl err \<Rightarrow> Some (Inl err, w')
                       | Inr p \<Rightarrow> Some (Inr (MergeParentProperties e p),
                                   CacheResource w' (LevelItem (MergeParentProperties e p)))) = Some y"
          by (auto split: Option.bind_splits)
        have "snd y = w' \<or> (\<exists>v. snd y = CacheResource w' (LevelItem v))"
          using y by (cases r) auto
        with IH [OF rec] show ?thesis by (auto simp: other [simplified])
      qed
    qed
  qed
qed

lemma listViews_response_cache:
  "listViews ks w = Some (views, w') \<Longrightarrow>
   memcache w' (''response:'' @ p) = memcache w (''response:'' @ p)
   \<and> length views \<le> length ks"
proof (induction ks arbitrary: w views w')
  case Nil
  then show ?case by simp
next
  case (Cons k ks)
  from Cons.prems obtain r w1 vs where
    g: "getLevel k w = Some (r, w1)" and l: "listViews ks w1 = Some (vs, w')"
    and v: "views = (case r of Inr v \<Rightarrow> [v] | Inl err \<Rightarrow> []) @ vs"
    by (auto split: Option.bind_splits)
  from getLevel_response_cache [OF g] Cons.IH [OF l] v show ?case
    by (cases r) auto
qed

lemma listingBounded_same:
  "memcache w' (''response:'' @ queryAllKey) = memcache w (''response:'' @ queryAllKey) \<Longrightarrow>
   listingBounded w \<Longrightarrow> listingBounded w'"
  by (simp add: listingBounded_def cachedResponse_def GetCachedResource_def responseEntry_def
      GetCacheKey_def)

lemma listingBounded_absent:
  "memcache w (''response:'' @ queryAllKey) = None \<Longrightarrow> listingBounded w"
  by (simp add: listingBounded_def cachedResponse_def GetCachedResource_def responseEntry_def
      GetCacheKey_def)

lemma listingBounded_Invalidate:
  assumes "listingBounded w"
  shows "listingBounded (InvalidateCacheEntry w item)"
proof (cases "GetCacheKey item = ''response:'' @ queryAllKey")
  case True
  then show ?thesis by (intro listingBounded_absent) (simp add: InvalidateCacheEntry_def)
next
  case False
  then have "memcache (InvalidateCacheEntry w item) (''response:'' @ queryAllKey)
             = memcache w (''response:'' @ queryAllKey)"
    by (auto simp: InvalidateCacheEntry_def)
  from listingBounded_same [OF this assms] show ?thesis .
qed

lemma listingBounded_invalidateLevelCaches:
  "listingBounded w \<Longrightarrow> listingBounded (invalidateLevelCaches w k)"
  by (simp add: invalidateLevelCaches_def Let_def listingBounded_Invalidate)

lemma listingBounded_invalidate_each:
  "listingBounded w \<Longrightarrow> listingBounded (foldl invalidateLevelCaches w ks)"
  by (induction ks arbitrary: w) (simp_all add: listingBounded_invalidateLevelCaches)

lemma listingBounded_invalidateChildLevelCaches:
  "listingBounded w \<Longrightarrow> listingBounded (invalidateChildLevelCaches w k)"
  by (simp add: invalidateChildLevelCaches_def listingBounded_invalidate_each
      split: prod.split option.split)

lemma listingBounded_entities [simp]:
  "listingBounded (w\<lparr>entities := es\<rparr>) = listingBounded w"
  by (simp add: listingBounded_def cachedResponse_def GetCachedResource_def)

lemma listingBounded_handlePost:
  "listingBounded w \<Longrightarrow> listingBounded (snd (handlePost i body w))"
  by (cases body)
     (auto simp: handlePost_def Let_def datastore_Put_def invalidateQueryCaches_def
        listingBounded_Invalidate listingBounded_invalidateChildLevelCaches
        listingBounded_invalidateLevelCaches)

lemma listingBounded_handleDelete:
  "listingBounded w \<Longrightarrow> listingBounded (snd (handleDelete i w))"
  by (auto simp: handleDelete_def Let_def datastore_Delete_def invalidateQueryCaches_def
        listingBounded_Invalidate listingBounded_invalidateChildLevelCaches
        listingBounded_invalidateLevelCaches)

lemma handleGet_miss:
  assumes "GetCachedResource w (responseEntry (''/levels/'' @ i)) = Inl c"
      and "getLevel i w = Some (r, w1)"
  shows "handleGet i w =
     (case r of
        Inl ErrNoSuchEntity \<Rightarrow>
          Some ((404, RespText ''Level does not exist''),
                CacheResource w1 (ResponseItem \<lparr> Path = ''/levels/'' @ i, Code = 404,
                                    Response = RespText ''Level does not exist'' \<rparr>))
      | Inl _ \<Rightarrow> Some ((500, RespText ''Could not retrieve the level''), w1)
      | Inr result \<Rightarrow>
          Some ((200, RespLevel (ToJsonLevel result)),
                CacheResource w1 (ResponseItem \<lparr> Path = ''/levels/'' @ i, Code = 200,
                                    Response = RespLevel (ToJsonLevel result) \<rparr>)))"
proof (cases r)
  case (Inl err)
  with assms show ?thesis by (cases err) (simp_all add: handleGet_def Let_def)
next
  case (Inr v)
  with assms show ?thesis by (simp add: handleGet_def Let_def)
qed

lemma listingBounded_handleGet:
  assumes "listingBounded w" and "handleGet i w = Some (resp, w')"
  shows "listingBounded w'"
proof (cases "GetCachedResource w (responseEntry (''/levels/'' @ i))")
  case (Inr x)
  then obtain r where "x = ResponseItem r" using GetCachedResource_response_kind by blast
  with Inr assms show ?thesis by (simp add: handleGet_def Let_def)
next
  case (Inl c)
  with assms(2) obtain r w1 where g: "getLevel i w = Some (r, w1)"
    by (auto simp: handleGet_def Let_def split: Option.bind_splits)
  from getLevel_response_cache [OF g] have same:
    "memcache w1 (''response:'' @ queryAllKey) = memcache w (''response:'' @ queryAllKey)"
    by simp
  have other: "\<And>code body.
      memcache (CacheResource w1 (ResponseItem \<lparr> Path = ''/levels/'' @ i, Code = code,
                                     Response = body \<rparr>)) (''response:'' @ queryAllKey)
      = memcache w1 (''response:'' @ queryAllKey)"
    by (rule CacheResource_other_key) (simp add: GetCacheKey_def queryAllKey_def)
  have "memcache w' (''response:'' @ queryAllKey) = memcache w1 (''response:'' @ queryAllKey)"
  proof (cases r)
    case a: (Inl err)
    from handleGet_miss [OF Inl g] assms(2) a have
      "w' = w1 \<or> w' = CacheResource w1 (ResponseItem \<lparr> Path = ''/levels/'' @ i, Code = 404,
                                    Response = RespText ''Level does not exist'' \<rparr>)"
      by (cases err) simp_all
    then show ?thesis by (elim disjE) (simp_all add: other [simplified])
  next
    case (Inr v)
    from handleGet_miss [OF Inl g] assms(2) Inr have
      "w' = CacheResource w1 (ResponseItem \<lparr> Path = ''/levels/'' @ i, Code = 200,
                                    Response = RespLevel (ToJsonLevel v) \<rparr>)"
      by simp
    then show ?thesis by (simp add: other [simplified])
  qed
  with same have "memcache w' (''response:'' @ queryAllKey) = memcache w (''response:'' @ queryAllKey)"
    by simp
  from listingBounded_same [OF this assms(1)] show ?thesis .
qed

lemma handleQuery_hit:
  "GetCachedResource w (responseEntry queryAllKey) = Inr (ResponseItem r) \<Longrightarrow>
   handleQuery w = Some ((Code r, Response r), w)"
  by (simp add: handleQuery_def)

lemma listingBounded_written:
  assumes "length ls \<le> 100" and "listingBounded w"
  shows "listingBounded (CacheResource w (ResponseItem \<lparr> Path = queryAllKey, Code = 200,
                                            Response = RespLevels ls \<rparr>))"
proof (cases "MarshalBinary (ResponseItem \<lparr> Path = queryAllKey, Code = 200,
                                            Response = RespLevels ls \<rparr>)")
  case (Inl err)
  with assms(2) show ?thesis by (simp add: CacheResource_def)
next
  case (Inr data)
  then have "data = ResponseJson \<lparr> Path = queryAllKey, Code = 200, Response = RespLevels ls \<rparr>"
    by (auto simp: MarshalBinary_def split: if_splits)
  with Inr assms(1) show ?thesis
    by (simp add: CacheResource_def listingBounded_def cachedResponse_def GetCachedResource_def
        responseEntry_def GetCacheKey_def UnmarshalBinary_def)
qed

lemma listingBounded_handleQuery:
  assumes "listingBounded w" and "handleQuery w = Some (resp, w')"
  shows "listingBounded w'"
proof (cases "GetCachedResource w (responseEntry queryAllKey)")
  case (Inr x)
  then obtain r where "x = ResponseItem r" using GetCachedResource_response_kind by blast
  with Inr assms handleQuery_hit show ?thesis by simp
next
  case (Inl c)
  obtain keys err where q: "queryAllKeys w = (keys, err)" by (cases "queryAllKeys w")
  with Inl assms(2) obtain views w1 where lv: "listViews keys w = Some (views, w1)"
    and w': "w' = CacheResource w1 (ResponseItem \<lparr> Path = queryAllKey, Code = 200,
                                   Response = RespLevels (map ToJsonLevel views) \<rparr>)"
    by (auto simp: handleQuery_def resolveKeys_listViews Let_def split: Option.bind_splits)
  from listViews_response_cache [OF lv] have len: "length views \<le> length keys"
    and same: "memcache w1 (''response:'' @ queryAllKey) = memcache w (''response:'' @ queryAllKey)"
    by simp_all
  have "length keys \<le> 100" using queryAllKeys_bound [of w] q by simp
  with len have "length (map ToJsonLevel views) \<le> 100" by simp
  from listingBounded_written [OF this listingBounded_same [OF same assms(1)]] w'
  show ?thesis by simp
qed

lemma listingBounded_serve:
  "listingBounded w \<Longrightarrow> serve rq w = Some (resp, w') \<Longrightarrow> listingBounded w'"
proof (cases rq)
  case (Get i)
  assume "listingBounded w" "serve rq w = Some (resp, w')"
  with Get show ?thesis using listingBounded_handleGet by simp
next
  case (Post i body)
  assume "listingBounded w" "serve rq w = Some (resp, w')"
  with Post listingBounded_handlePost [of w i body] show ?thesis by auto
next
  case (Put i body)
  assume "listingBounded w" "serve rq w = Some (resp, w')"
  with Put listingBounded_handlePost [of w i body] show ?thesis by (auto simp: handlePut_def)
next
  case (Delete i)
  assume "listingBounded w" "serve rq w = Some (resp, w')"
  with Delete listingBounded_handleDelete [of w i] show ?thesis by auto
next
  case Query
  assume "listingBounded w" "serve rq w = Some (resp, w')"
  with Query show ?thesis using listingBounded_handleQuery by simp
qed

lemma listingBounded_run:
  "listingBounded w \<Longrightarrow> run rqs w = Some w' \<Longrightarrow> listingBounded w'"
proof (induction rqs arbitrary: w)
  case Nil
  then show ?case by simp
next
  case (Cons rq rqs)
  from Cons.prems(2) obtain resp w1 where s: "serve rq w = Some (resp, w1)"
    and r: "run rqs w1 = Some w'"
    by (auto split: Option.bind_splits)
  from listingBounded_serve [OF Cons.prems(1) s] Cons.IH r show ?case by blast
qed

lemma listingBounded_reachable:
  "memcache w (''response:'' @ queryAllKey) = None \<Longrightarrow> run rqs w = Some w' \<Longrightarrow>
   listingBounded w'"
  using listingBounded_run [of w rqs w'] by (simp add: listingBounded_absent)

section \<open>What invalidation evicts\<close>

lemma invalidateLevelCaches_memcache:
  "memcache (invalidateLevelCaches w i) k =
     (if k = ''level:'' @ i \<or> k = ''response:/levels/'' @ i then None else memcache w k)"
  by (simp add: invalidateLevelCaches_def Let_def InvalidateCacheEntry_def GetCacheKey_def
      levelEntry_def responseEntry_def buildResourcePath_def)

lemma invalidate_each_memcache:
  "memcache (foldl invalidateLevelCaches w ks) k =
     (if k \<in> (\<lambda>i. ''level:'' @ i) ` set ks \<or> k \<in> (\<lambda>i. ''response:/levels/'' @ i) ` set ks
      then None else memcache w k)"
proof (induction ks arbitrary: w)
  case Nil
  then show ?case by simp
next
  case (Cons i ks)
  show ?case
    unfolding foldl_Cons Cons.IH invalidateLevelCaches_memcache by auto
qed

lemma invalidation_memcache:
  assumes "\<not> childQueryFails w x"
  shows "memcache (invalidateQueryCaches (invalidateChildLevelCaches (invalidateLevelCaches w x) x)) k =
     (if k = ''level:'' @ x \<or> k = ''response:/levels/'' @ x \<or> k = ''response:'' @ queryAllKey
         \<or> (\<exists>c e. (c, e) \<in> set (entities w) \<and> Parent e = x
               \<and> (k = ''level:'' @ c \<or> k = ''response:/levels/'' @ c))
      then None else memcache w k)"
proof -
  have keys: "queryChildKeys (invalidateLevelCaches w x) x =
      (map fst (filter (\<lambda>ke. Parent (snd ke) = x) (entities w)), None)"
    using assms by (simp add: queryChildKeys_def)
  have children: "set (map fst (filter (\<lambda>ke. Parent (snd ke) = x) (entities w)))
      = {c. \<exists>e. (c, e) \<in> set (entities w) \<and> Parent e = x}"
    by force
  show ?thesis
    unfolding invalidateQueryCaches_def invalidateChildLevelCaches_def keys
    by (simp add: InvalidateCacheEntry_def GetCacheKey_def responseEntry_def
        invalidate_each_memcache invalidateLevelCaches_memcache children image_iff) blast
qed


lemma invalidation_spares_other_ids:
  assumes "\<not> childQueryFails w x" and "k \<noteq> x"
      and "\<forall>e. (k, e) \<in> set (entities w) \<longrightarrow> Parent e \<noteq> x"
  shows "memcache (invalidateQueryCaches (invalidateChildLevelCaches (invalidateLevelCaches w x) x))
           (''level:'' @ k) = memcache w (''level:'' @ k)"
    and "memcache (invalidateQueryCaches (invalidateChildLevelCaches (invalidateLevelCaches w x) x))
           (''response:/levels/'' @ k) = memcache w (''response:/levels/'' @ k)"
  using assms(2,3)
  by (auto simp: invalidation_memcache [OF assms(1)] queryAllKey_def)

lemma upsert_evicts_self_children_listing:
  assumes "\<not> putFails w x" and "\<not> childQueryFails w x"
      and "w' = snd (handlePost x (Some body) w)"
  shows "cachedLevel w' x = None \<and> cachedResponse w' (''/levels/'' @ x) = None
       \<and> cachedResponse w' queryAllKey = None
       \<and> (\<forall>c e. (c, e) \<in> set (entities w') \<and> Parent e = x \<longrightarrow>
             cachedLevel w' c = None \<and> cachedResponse w' (''/levels/'' @ c) = None)"
proof -
  let ?w1 = "w\<lparr>entities := AList.update x (ToDatastoreLevel (body\<lparr>jKey := Some x\<rparr>)) (entities w)\<rparr>"
  have q: "\<not> childQueryFails ?w1 x" using assms(2) by simp
  have w': "w' = invalidateQueryCaches (invalidateChildLevelCaches (invalidateLevelCaches ?w1 x) x)"
    using assms(1,3) by (simp add: handlePost_stored)
  show ?thesis
    by (auto simp: w' cachedLevel_def cachedResponse_def GetCachedResource_def levelEntry_def
        responseEntry_def GetCacheKey_def zeroLevel_def invalidation_memcache [OF q])
qed

lemma delete_evicts_self_children_listing:
  assumes "\<not> deleteFails w x" and "\<not> childQueryFails w x"
      and "w' = snd (handleDelete x w)"
  shows "cachedLevel w' x = None \<and> cachedResponse w' (''/levels/'' @ x) = None
       \<and> cachedResponse w' queryAllKey = None
       \<and> (\<forall>c e. (c, e) \<in> set (entities w') \<and> Parent e = x \<longrightarrow>
             cachedLevel w' c = None \<and> cachedResponse w' (''/levels/'' @ c) = None)"
proof -
  let ?w1 = "w\<lparr>entities := AList.delete x (entities w)\<rparr>"
  have q: "\<not> childQueryFails ?w1 x" using assms(2) by simp
  have w': "w' = invalidateQueryCaches (invalidateChildLevelCaches (invalidateLevelCaches ?w1 x) x)"
    using assms(1,3) by (simp add: handleDelete_done)
  show ?thesis
    by (auto simp: w' cachedLevel_def cachedResponse_def GetCachedResource_def levelEntry_def
        responseEntry_def GetCacheKey_def zeroLevel_def invalidation_memcache [OF q])
qed

text \<open>Reading off the result of a call that returns.\<close>

lemma returned: "x \<noteq> None \<Longrightarrow> x = Some (fst (the x), snd (the x))"
  by auto

lemma returned_with: "x \<noteq> None \<Longrightarrow> fst (the x) = a \<Longrightarrow> x = Some (a, snd (the x))"
  by auto

section \<open>The conversions\<close>

text \<open>
  C8. For every \<open>JsonLevel\<close> value, converting to the datastore representation and back
  gives the value again, field by field: a nil field stays nil, a set field keeps its
  value, and the spawn-frequency map comes back with the same keys and values (whatever
  the order in which the entries were visited).
\<close>

theorem json_datastore_roundtrip: "ToJsonLevel (ToDatastoreLevel j) = j"
proof -
  have "ToJsonLevel (ToDatastoreLevel j) =
        \<lparr> jKey = jKey j, jParent = jParent j, jName = jName j, jRows = jRows j,
          jColumns = jColumns j, jHealth = jHealth j, jDuration = jDuration j,
          jComboTimer = jComboTimer j, jUnitDelayMultiplier = jUnitDelayMultiplier j,
          jMaxActiveUnits = jMaxActiveUnits j, jSpawnsPerSecond = jSpawnsPerSecond j,
          jSpawnFrequency = jSpawnFrequency j \<rparr>"
    by (simp add: ToJsonLevel_def ToDatastoreLevel_def zeroLevel_def Let_def
        from_updates pointer_rebuilt spawn_pointer_rebuilt cong: option.case_cong if_cong)
  then show ?thesis by simp
qed

section \<open>Upserts and deletes\<close>

text \<open>
  C9. For every upsert (POST or PUT to \<open>/levels/:id\<close>) whose write succeeds, the stored
  record is the body converted with the path id as its key: its \<open>Key\<close> is the path id and
  \<open>HasKey\<close> is set, whatever key the body carries; the body's own key has no effect on
  what the handler does.
\<close>

theorem upsert_key_from_path:
  assumes "\<not> putFails w pathId"
  shows "\<exists>e. map_of (entities (snd (handlePost pathId (Some body) w))) pathId = Some e
             \<and> Key e = pathId \<and> HasKey e
             \<and> map_of (entities (snd (handlePut pathId (Some body) w))) pathId = Some e
             \<and> handlePost pathId (Some (body\<lparr>jKey := k\<rparr>)) w = handlePost pathId (Some body) w"
  using assms
  by (simp add: handlePut_def handlePost_stored update_Some_unfold ToDatastoreLevel_path_key)

text \<open>C9 at a body that names the key \<open>other\<close>, posted to the path id \<open>A\<close>.\<close>

theorem upsert_key_from_path_witness:
  "\<exists>e. map_of (entities (snd (handlePost ''A'' (Some bodyOtherKey) emptyWorld))) ''A'' = Some e
       \<and> Key e = ''A'' \<and> HasKey e
       \<and> map_of (entities (snd (handlePut ''A'' (Some bodyOtherKey) emptyWorld))) ''A'' = Some e
       \<and> handlePost ''A'' (Some (bodyOtherKey\<lparr>jKey := None\<rparr>)) emptyWorld
           = handlePost ''A'' (Some bodyOtherKey) emptyWorld"
proof -
  have h: "\<not> putFails emptyWorld ''A''" by (simp add: emptyWorld_def)
  show ?thesis by (rule upsert_key_from_path [OF h])
qed

text \<open>
  C5. For every upsert and every delete whose datastore write succeeds, the handler
  answers 200 even when the children query of the invalidation fails: the failure is
  swallowed, and the answer is the one given when the query succeeds.
\<close>

theorem mutation_succeeds_despite_child_query_failure:
  "(\<not> putFails w i \<and> childQueryFails w i \<longrightarrow>
       fst (handlePost i (Some body) w) = (200, RespNull)
     \<and> fst (handlePut i (Some body) w) = (200, RespNull)
     \<and> fst (handlePost i (Some body) w)
         = fst (handlePost i (Some body) (w\<lparr>childQueryFails := (\<lambda>k. False)\<rparr>)))
   \<and> (\<not> deleteFails w i \<and> childQueryFails w i \<longrightarrow>
       fst (handleDelete i w) = (200, RespNull)
     \<and> fst (handleDelete i w) = fst (handleDelete i (w\<lparr>childQueryFails := (\<lambda>k. False)\<rparr>)))"
  by (simp add: handlePut_def handlePost_stored handleDelete_done)

text \<open>C5 at a store whose children query always fails.\<close>

theorem mutation_succeeds_despite_child_query_failure_witness:
  "\<not> putFails childQueryOutage ''A'' \<and> childQueryFails childQueryOutage ''A''
   \<and> \<not> deleteFails childQueryOutage ''A''
   \<and> fst (handlePost ''A'' (Some bodyA) childQueryOutage) = (200, RespNull)
   \<and> fst (handlePut ''A'' (Some bodyA) childQueryOutage) = (200, RespNull)
   \<and> fst (handleDelete ''A'' childQueryOutage) = (200, RespNull)"
proof -
  have h: "\<not> putFails childQueryOutage ''A'' \<and> childQueryFails childQueryOutage ''A''"
    "\<not> deleteFails childQueryOutage ''A'' \<and> childQueryFails childQueryOutage ''A''"
    by (simp_all add: childQueryOutage_def emptyWorld_def)
  show ?thesis
    using h mutation_succeeds_despite_child_query_failure [of childQueryOutage "''A''" bodyA]
    by simp
qed

section \<open>Invalidation\<close>

text \<open>
  C1. The specification has a write to \<open>X\<close> evict the two cache entries of every
  transitive descendant of \<open>X\<close>. The handlers evict those of \<open>X\<close>, those of its
  direct children and the listing entry (lemmas \<open>upsert_evicts_self_children_listing\<close>
  and \<open>delete_evicts_self_children_listing\<close>), and leave every other id alone (lemma
  \<open>invalidation_spares_other_ids\<close>): \<open>invalidateChildLevelCaches\<close> calls
  \<open>invalidateLevelCaches\<close> on each direct child and never itself. Here the family
  \<open>A\<close>, \<open>B\<close>, \<open>G\<close> is stored, \<open>G\<close> is read, and \<open>A\<close> is overwritten with five rows:
  the entries of \<open>A\<close> and of \<open>B\<close> and the listing entry are gone, those of the
  grandchild \<open>G\<close> are still there with one row, and the next read of \<open>G\<close> is answered
  with one row although the nearest ancestor that sets the rows now says five.
\<close>

theorem grandchild_entries_survive_invalidation:
  "map_option (map fst \<circ> entities) (run grandchildRequests emptyWorld) = Some [''A'', ''B'', ''G'']
   \<and> cachedLevel grandchildWorld ''A'' = None
   \<and> cachedResponse grandchildWorld ''/levels/A'' = None
   \<and> cachedLevel grandchildWorld ''B'' = None
   \<and> cachedResponse grandchildWorld ''/levels/B'' = None
   \<and> cachedResponse grandchildWorld queryAllKey = None
   \<and> map_option (field FRows) (cachedLevel grandchildWorld ''G'') = Some (Some (VInt 1))
   \<and> map_option Code (cachedResponse grandchildWorld ''/levels/G'') = Some 200
   \<and> map_option fst (handleGet ''G'' grandchildWorld)
       = Some (200, RespLevel (nilLevel\<lparr>jKey := Some ''G'', jParent := Some ''B'',
                                 jName := Some ''child'', jRows := Some 1, jColumns := Some 2\<rparr>))
   \<and> map_option (nearest FRows) (ancestorChain 3 (entities grandchildWorld) ''G'')
       = Some (Some (VInt 5))"
  by code_simp

section \<open>The entity resolver\<close>

text \<open>
  C2, as amended. On a cache miss where the entity is loaded from the datastore, the
  parent is resolved if and only if the entity has a parent reference that is not the
  empty string; whether any field is unset plays no part. With such a reference the
  parent is the next id the resolver is entered on; without one, the resolver is
  entered on no other id.
\<close>

theorem parent_resolved_iff_parent_reference:
  assumes "GetCachedResource w (levelEntry levelId) = Inl c"
      and "datastore_Get w levelId = Inr e"
      and "getLevel levelId w = Some (r, w')"
  shows "(HasParent e \<and> Parent e \<noteq> [] \<longrightarrow>
            (\<exists>rest. resolvedDuring w w' = levelId # Parent e # rest))
       \<and> (\<not> (HasParent e \<and> Parent e \<noteq> []) \<longrightarrow> resolvedDuring w w' = [levelId])"
proof (cases "HasParent e \<and> Parent e \<noteq> []")
  case False
  from getLevel_root [OF assms(1,2) False] assms(3) have
    "w' = CacheResource (w\<lparr>resolveLog := resolveLog w @ [levelId]\<rparr>) (LevelItem e)" by simp
  then show ?thesis using False by (simp add: resolvedDuring_def)
next
  case True
  let ?w = "w\<lparr>resolveLog := resolveLog w @ [levelId]\<rparr>"
  from True getLevel_child [OF assms(1,2)] assms(3) obtain pr pw where
    rec: "getLevel (Parent e) ?w = Some (pr, pw)"
    and out: "(case pr of Inl err \<Rightarrow> Some (Inl err, pw)
               | Inr p \<Rightarrow> Some (Inr (MergeParentProperties e p),
                                CacheResource pw (LevelItem (MergeParentProperties e p))))
              = Some (r, w')"
    by (auto split: Option.bind_splits)
  have w': "w' = pw \<or> (\<exists>item. w' = CacheResource pw item)"
    using out by (cases pr) auto
  from getLevel_frame [OF rec] obtain rest where
    "resolveLog pw = resolveLog ?w @ Parent e # rest" by auto
  with w' have "resolveLog w' = resolveLog w @ levelId # Parent e # rest" by auto
  then show ?thesis using True by (simp add: resolvedDuring_def)
qed

text \<open>C2 as amended, at the cold family: resolving \<open>B\<close> enters the resolver on \<open>A\<close>.\<close>

theorem parent_resolved_iff_parent_reference_witness:
  "GetCachedResource familyCold (levelEntry ''B'') = Inl ErrCacheMiss
   \<and> datastore_Get familyCold ''B'' = Inr levelB
   \<and> (\<exists>rest. resolvedDuring familyCold (snd (the (getLevel ''B'' familyCold)))
              = ''B'' # ''A'' # rest)"
proof -
  have h1: "GetCachedResource familyCold (levelEntry ''B'') = Inl ErrCacheMiss" by code_simp
  have h2: "datastore_Get familyCold ''B'' = Inr levelB" by code_simp
  have "getLevel ''B'' familyCold \<noteq> None" by code_simp
  then have h3: "getLevel ''B'' familyCold =
      Some (fst (the (getLevel ''B'' familyCold)), snd (the (getLevel ''B'' familyCold)))"
    by (rule returned)
  have p: "HasParent levelB \<and> Parent levelB \<noteq> []" by code_simp
  have q: "Parent levelB = ''A''" by code_simp
  from parent_resolved_iff_parent_reference [OF h1 h2 h3] p q h1 h2 show ?thesis by simp
qed

text \<open>
  C2 as the specification states it fails: \<open>F\<close> has a parent reference and sets every one of its fields, it
  is not cached and is loaded from the datastore, and resolving it enters the resolver
  on its parent \<open>A\<close>.
\<close>

theorem parent_resolved_with_all_fields_set:
  "GetCachedResource fullChildWorld (levelEntry ''F'') = Inl ErrCacheMiss
   \<and> datastore_Get fullChildWorld ''F'' = Inr levelF
   \<and> HasParent levelF \<and> allFieldsSet levelF
   \<and> map_option (resolvedDuring fullChildWorld \<circ> snd) (getLevel ''F'' fullChildWorld)
       = Some [''F'', ''A'']"
  by code_simp

text \<open>
  C3, as amended. For an entity with a well-formed ancestor chain, when the datastore
  answers the reads of the chain and every entity-cache entry of a member of the chain
  is either absent or holds that member's current merged view, resolving the entity
  returns a view in which each field is the entity's own value if the entity sets it,
  else the value of the nearest ancestor that sets it, and is unset if no member of the
  chain sets it; the id and the parent reference of the view are the entity's own.
\<close>

theorem resolve_yields_merged_view:
  assumes "ancestorChain n (entities w) levelId = Some (e # ancestors)"
      and "chainReadable w levelId (e # ancestors)"
      and "cacheCurrent w levelId (e # ancestors)"
  shows "\<exists>v w'. getLevel levelId w = Some (Inr v, w')
           \<and> (\<forall>f. field f v = nearest f (e # ancestors))
           \<and> Key v = Key e \<and> HasKey v = HasKey e
           \<and> Parent v = Parent e \<and> HasParent v = HasParent e"
  using resolve_chain [OF assms] by (auto simp: isMergedView_iff)

text \<open>C3 as amended, at the family with \<open>A\<close> cached: resolving \<open>G\<close> misses on \<open>G\<close> and
  on \<open>B\<close> and hits on \<open>A\<close>.\<close>

theorem resolve_yields_merged_view_witness:
  "\<exists>v w'. getLevel ''G'' familyWarmA = Some (Inr v, w')
         \<and> (\<forall>f. field f v = nearest f (levelG # [levelB, levelA]))
         \<and> Key v = Key levelG \<and> HasKey v = HasKey levelG
         \<and> Parent v = Parent levelG \<and> HasParent v = HasParent levelG"
proof -
  have h1: "ancestorChain 3 (entities familyWarmA) ''G'' = Some (levelG # [levelB, levelA])"
    by code_simp
  have h2: "chainReadable familyWarmA ''G'' (levelG # [levelB, levelA])" by code_simp
  have h3: "cacheCurrent familyWarmA ''G'' (levelG # [levelB, levelA])" by code_simp
  show ?thesis by (rule resolve_yields_merged_view [OF h1 h2 h3])
qed

text \<open>
  C3 as the specification states it fails. \<open>B\<close> was resolved and cached while \<open>A\<close> had one row; \<open>A\<close> was then
  overwritten with five rows while the children query failed, which leaves the entry of
  \<open>B\<close> in place. The chain of \<open>B\<close> is well formed and its nearest value for the rows is
  five, and resolving \<open>B\<close> returns one.
\<close>

theorem stale_view_returned:
  "ancestorChain 2 (entities staleChild) ''B'' = Some [levelB, levelA5]
   \<and> chainReadable staleChild ''B'' [levelB, levelA5]
   \<and> nearest FRows [levelB, levelA5] = Some (VInt 5)
   \<and> map_option (map_sum id (field FRows) \<circ> fst) (getLevel ''B'' staleChild)
       = Some (Inr (Some (VInt 1)))"
  by code_simp

text \<open>
  C4, as amended. For an entity whose record is in the datastore and whose parent
  reference names a non-empty id that is not, when neither the entity nor the parent
  has an entity-cache entry and the datastore answers both reads, resolving the entity
  fails with \<open>ErrNoSuchEntity\<close>, the error that resolving the absent parent itself
  gives, and leaves memcache as it was.
\<close>

theorem dangling_parent_not_found:
  assumes "GetCachedResource w (levelEntry levelId) = Inl c"
      and "map_of (entities w) levelId = Some e"
      and "\<not> getFails w levelId"
      and "HasParent e" and "Parent e \<noteq> []"
      and "map_of (entities w) (Parent e) = None"
      and "\<not> getFails w (Parent e)"
      and "GetCachedResource w (levelEntry (Parent e)) = Inl c'"
  shows "\<exists>w' w''. getLevel levelId w = Some (Inl ErrNoSuchEntity, w')
           \<and> memcache w' = memcache w
           \<and> getLevel (Parent e) w = Some (Inl ErrNoSuchEntity, w'')"
proof -
  let ?w = "w\<lparr>resolveLog := resolveLog w @ [levelId]\<rparr>"
  have get: "datastore_Get w levelId = Inr e"
    using assms(2,3) by (simp add: datastore_Get_def)
  have pget: "datastore_Get w (Parent e) = Inl ErrNoSuchEntity"
    using assms(6,7) by (simp add: datastore_Get_def)
  have p1: "getLevel (Parent e) ?w =
              Some (Inl ErrNoSuchEntity, ?w\<lparr>resolveLog := resolveLog ?w @ [Parent e]\<rparr>)"
    using assms(8) pget by (intro getLevel_absent) simp_all
  have "getLevel levelId w =
          Some (Inl ErrNoSuchEntity, ?w\<lparr>resolveLog := resolveLog ?w @ [Parent e]\<rparr>)"
    using getLevel_child [OF assms(1) get assms(4,5)] p1 by simp
  moreover have "getLevel (Parent e) w =
          Some (Inl ErrNoSuchEntity, w\<lparr>resolveLog := resolveLog w @ [Parent e]\<rparr>)"
    using assms(8) pget by (rule getLevel_absent)
  ultimately show ?thesis by simp
qed

text \<open>C4 as amended, at \<open>D\<close>, stored with a parent that never was.\<close>

theorem dangling_parent_not_found_witness:
  "\<exists>w' w''. getLevel ''D'' danglingWorld = Some (Inl ErrNoSuchEntity, w')
         \<and> memcache w' = memcache danglingWorld
         \<and> getLevel (Parent levelD) danglingWorld = Some (Inl ErrNoSuchEntity, w'')"
proof -
  have h1: "GetCachedResource danglingWorld (levelEntry ''D'') = Inl ErrCacheMiss" by code_simp
  have h2: "map_of (entities danglingWorld) ''D'' = Some levelD" by code_simp
  have h3: "\<not> getFails danglingWorld ''D''" by code_simp
  have h4: "HasParent levelD" by code_simp
  have h5: "Parent levelD \<noteq> []" by code_simp
  have h6: "map_of (entities danglingWorld) (Parent levelD) = None" by code_simp
  have h7: "\<not> getFails danglingWorld (Parent levelD)" by code_simp
  have h8: "GetCachedResource danglingWorld (levelEntry (Parent levelD)) = Inl ErrCacheMiss"
    by code_simp
  show ?thesis by (rule dangling_parent_not_found [OF h1 h2 h3 h4 h5 h6 h7 h8])
qed

text \<open>
  C4 as the specification states it fails. \<open>B\<close> was resolved and cached, then its parent \<open>A\<close> was deleted
  while the children query failed. The record of \<open>B\<close> is in the datastore, its parent
  reference names \<open>A\<close>, which is not, and resolving \<open>B\<close> returns the cached view.
\<close>

theorem orphan_resolved_from_cache:
  "map_of (entities orphanChild) ''B'' = Some levelB
   \<and> HasParent levelB \<and> Parent levelB = ''A''
   \<and> map_of (entities orphanChild) ''A'' = None
   \<and> map_option fst (getLevel ''B'' orphanChild) = Some (Inr viewB)"
  by code_simp

section \<open>The listing\<close>

text \<open>
  C6. When no enumerated id lies on a cycle of parent references, and the entry under
  the listing key (if any) is one that the handlers wrote, the listing returns a list
  of at most 100 entities, however many the store holds. When the listing is not in the
  response cache it answers 200 with the merged views of the ids the keys-only query
  delivers (the first 100 of the store when the query succeeds), resolved one after
  another in query order.
\<close>

theorem listing_at_most_100:
  assumes "listingBounded w"
      and "list_all (chainEnds n (entities w)) (fst (queryAllKeys w))"
  shows "\<exists>code ls w'.
           handleQuery w = Some ((code, RespLevels ls), w') \<and> length ls \<le> 100
         \<and> (\<forall>c. GetCachedResource w (responseEntry queryAllKey) = Inl c \<longrightarrow>
              code = 200
            \<and> (\<exists>views w1. ls = map ToJsonLevel views
                  \<and> listViews (fst (queryAllKeys w)) w = Some (views, w1)))
         \<and> (allQueryFault w = None \<longrightarrow>
              fst (queryAllKeys w) = take 100 (map fst (entities w)))"
proof -
  have keys: "allQueryFault w = None \<longrightarrow>
      fst (queryAllKeys w) = take 100 (map fst (entities w))"
    by (simp add: queryAllKeys_def)
  show ?thesis
  proof (cases "GetCachedResource w (responseEntry queryAllKey)")
    case (Inr x)
    then obtain r where x: "x = ResponseItem r" using GetCachedResource_response_kind by blast
    with Inr have "cachedResponse w queryAllKey = Some r"
      by (simp add: cachedResponse_def)
    with assms(1) obtain ls where "Response r = RespLevels ls" "length ls \<le> 100"
      by (auto simp: listingBounded_def split: response.splits)
    with handleQuery_hit Inr x keys show ?thesis by auto
  next
    case (Inl c)
    from listViews_total [OF assms(2)] obtain views w1 where
      lv: "listViews (fst (queryAllKeys w)) w = Some (views, w1)"
      and len: "length views \<le> length (fst (queryAllKeys w))" by blast
    from len queryAllKeys_bound [of w] have "length (map ToJsonLevel views) \<le> 100" by simp
    with handleQuery_miss [OF Inl lv] lv keys show ?thesis by auto
  qed
qed

text \<open>C6 at the family, not yet listed (a miss) and listed once before (a hit).\<close>

theorem listing_at_most_100_witness:
  "(\<exists>code ls w'.
      handleQuery familyCold = Some ((code, RespLevels ls), w') \<and> length ls \<le> 100
    \<and> (\<forall>c. GetCachedResource familyCold (responseEntry queryAllKey) = Inl c \<longrightarrow>
         code = 200
       \<and> (\<exists>views w1. ls = map ToJsonLevel views
             \<and> listViews (fst (queryAllKeys familyCold)) familyCold = Some (views, w1)))
    \<and> (allQueryFault familyCold = None \<longrightarrow>
         fst (queryAllKeys familyCold) = take 100 (map fst (entities familyCold))))
   \<and> (\<exists>code ls w'.
      handleQuery familyListed = Some ((code, RespLevels ls), w') \<and> length ls \<le> 100
    \<and> (\<forall>c. GetCachedResource familyListed (responseEntry queryAllKey) = Inl c \<longrightarrow>
         code = 200
       \<and> (\<exists>views w1. ls = map ToJsonLevel views
             \<and> listViews (fst (queryAllKeys familyListed)) familyListed = Some (views, w1)))
    \<and> (allQueryFault familyListed = None \<longrightarrow>
         fst (queryAllKeys familyListed) = take 100 (map fst (entities familyListed))))"
proof -
  have c1: "listingBounded familyCold" by code_simp
  have c2: "list_all (chainEnds 3 (entities familyCold)) (fst (queryAllKeys familyCold))"
    by code_simp
  have l1: "listingBounded familyListed" by code_simp
  have l2: "list_all (chainEnds 3 (entities familyListed)) (fst (queryAllKeys familyListed))"
    by code_simp
  show ?thesis
    using listing_at_most_100 [OF c1 c2] listing_at_most_100 [OF l1 l2] by (rule conjI)
qed

text \<open>
  C7. During a listing, an enumerated id whose resolution fails contributes nothing,
  the ids before it and after it contribute their views, and the listing answers 200.
\<close>

theorem listing_skips_failed_id:
  assumes "GetCachedResource w (responseEntry queryAllKey) = Inl c"
      and "fst (queryAllKeys w) = ks1 @ k # ks2"
      and "listViews ks1 w = Some (vs1, w1)"
      and "getLevel k w1 = Some (Inl err, w2)"
      and "listViews ks2 w2 = Some (vs2, w3)"
  shows "\<exists>w'. handleQuery w = Some ((200, RespLevels (map ToJsonLevel (vs1 @ vs2))), w')"
proof -
  have "listViews (k # ks2) w1 = Some (vs2, w3)"
    using assms(4,5) by simp
  with assms(3) have "listViews (ks1 @ k # ks2) w = Some (vs1 @ vs2, w3)"
    by (simp add: listViews_append del: listViews.simps)
  with assms(2) have "listViews (fst (queryAllKeys w)) w = Some (vs1 @ vs2, w3)" by simp
  from handleQuery_miss [OF assms(1) this] show ?thesis by blast
qed

text \<open>C7 at \<open>A\<close>, \<open>D\<close>, \<open>B\<close>, where \<open>D\<close> has a dangling parent: the listing holds the views
  of \<open>A\<close> and \<open>B\<close>.\<close>

theorem listing_skips_failed_id_witness:
  "map_option fst (handleQuery danglingWorld)
     = Some (200, RespLevels [ToJsonLevel levelA, ToJsonLevel viewB])"
proof -
  let ?r1 = "listViews [''A''] danglingWorld"
  let ?r2 = "getLevel ''D'' (snd (the ?r1))"
  let ?r3 = "listViews [''B''] (snd (the ?r2))"
  have h1: "GetCachedResource danglingWorld (responseEntry queryAllKey) = Inl ErrCacheMiss"
    by code_simp
  have h2: "fst (queryAllKeys danglingWorld) = [''A''] @ ''D'' # [''B'']" by code_simp
  have "?r1 \<noteq> None" by code_simp
  then have h3: "?r1 = Some (fst (the ?r1), snd (the ?r1))" by (rule returned)
  have r2: "?r2 \<noteq> None" by code_simp
  have e2: "fst (the ?r2) = Inl ErrNoSuchEntity" by code_simp
  have h4: "?r2 = Some (Inl ErrNoSuchEntity, snd (the ?r2))" by (rule returned_with [OF r2 e2])
  have "?r3 \<noteq> None" by code_simp
  then have h5: "?r3 = Some (fst (the ?r3), snd (the ?r3))" by (rule returned)
  have v1: "fst (the ?r1) = [levelA]" by code_simp
  have v3: "fst (the ?r3) = [viewB]" by code_simp
  from listing_skips_failed_id [OF h1 h2 h3 h4 h5] v1 v3 show ?thesis by auto
qed



end
